theory Spec2Isabelle
  imports Main "HOL-Library.AList" "HOL-Library.Char_ord" "HOL-Library.List_Lexorder"
begin

section \<open>Values, exceptions and dictionaries\<close>

text \<open>
  The model follows \<^verbatim>\<open>src/pycloudflare/models.py\<close>. The values that travel between the
  client and the provider are the scalars of a decoded JSON document. A JSON object with
  string keys (a zone, a record, a setting descriptor) is a \<open>blob\<close>. A dictionary that the
  code builds itself and later enumerates (\<^verbatim>\<open>_updates\<close>, the payload of
  \<^verbatim>\<open>create_record\<close>) is an association list in insertion order, which is the order a
  Python dictionary (3.7 and later) enumerates.
\<close>

datatype pyval = VStr string | VInt int | VBool bool | VNone

type_synonym blob = "string \<rightharpoonup> pyval"

type_synonym pydict = "(string \<times> pyval) list"

text \<open>
  The exceptions that the code raises by itself (\<^verbatim>\<open>AttributeError\<close>, \<^verbatim>\<open>ValueError\<close>,
  with their message), that a subscript or a comparison raises (\<^verbatim>\<open>KeyError\<close>,
  \<^verbatim>\<open>TypeError\<close>), and whatever the service raises (\<open>ServiceError\<close>). The specification
  calls \<^verbatim>\<open>AttributeError\<close> AttributeNotFoundError and \<^verbatim>\<open>ValueError\<close> NotEditableError.
\<close>

datatype error =
    AttributeError string
  | ValueError string
  | KeyError string
  | TypeError
  | ServiceError string

text \<open>Python's truth value of a scalar, as \<^verbatim>\<open>if not x\<close> tests it.\<close>

fun truthy :: "pyval \<Rightarrow> bool" where
  "truthy (VStr s) = (s \<noteq> [])"
| "truthy (VInt i) = (i \<noteq> 0)"
| "truthy (VBool b) = b"
| "truthy VNone = False"

text \<open>
  Python's \<^verbatim>\<open>==\<close> on scalars: a \<^verbatim>\<open>bool\<close> is the integer 0 or 1, so \<^verbatim>\<open>True == 1\<close>;
  values of different kinds are otherwise unequal. Dictionary keys are matched by it.
\<close>

fun py_num :: "pyval \<Rightarrow> int option" where
  "py_num (VInt i) = Some i"
| "py_num (VBool b) = Some (if b then 1 else 0)"
| "py_num (VStr s) = None"
| "py_num VNone = None"

definition py_eq :: "pyval \<Rightarrow> pyval \<Rightarrow> bool" where
  "py_eq a b = (case (py_num a, py_num b) of
                  (Some i, Some j) \<Rightarrow> i = j
                | _ \<Rightarrow> a = b)"

text \<open>
  Python 3's \<^verbatim>\<open><\<close> on scalars: strings compare lexicographically by character code,
  numbers by value, and every other pair raises \<^verbatim>\<open>TypeError\<close>.
\<close>

fun py_lt :: "pyval \<Rightarrow> pyval \<Rightarrow> error + bool" where
  "py_lt (VStr s) (VStr t) = Inr (s < t)"
| "py_lt a b = (case (py_num a, py_num b) of
                  (Some i, Some j) \<Rightarrow> Inr (i < j)
                | _ \<Rightarrow> Inl TypeError)"

text \<open>
  \<^verbatim>\<open><\<close> on the tuples \<^verbatim>\<open>(r.type, r.content)\<close>: the first position at which the two
  tuples differ by \<^verbatim>\<open>==\<close> decides, and equal tuples are not less.
\<close>

fun key_lt :: "pyval \<times> pyval \<Rightarrow> pyval \<times> pyval \<Rightarrow> error + bool" where
  "key_lt (a1, b1) (a2, b2) =
     (if \<not> py_eq a1 a2 then py_lt a1 a2
      else if \<not> py_eq b1 b2 then py_lt b1 b2
      else Inr False)"

section \<open>The objects and the store\<close>

text \<open>
  Objects refer to each other (\<^verbatim>\<open>Record.zone\<close>, \<^verbatim>\<open>Zone.user\<close>) and clear each
  other's caches, so they live in a store, addressed by references. A
  \<^verbatim>\<open>cached_property\<close> is a slot holding \<open>None\<close> until the property has been computed;
  \<^verbatim>\<open>clear_property_cache\<close> puts \<open>None\<close> back. The host-API members of \<^verbatim>\<open>User\<close> take
  no part in what follows and are left out.
\<close>

type_synonym ref = nat

record user =
  u_email :: pyval
  u_zones :: "ref list option"

record zone =
  z_user :: ref
  z_data :: blob
  z_settings :: "ref option"
  z_records :: "(pyval \<times> ref list) list option"

record zone_settings =
  s_zone :: ref
  s_settings :: "(pyval \<times> blob) list"
  s_updates :: pydict

record dns_record =
  r_zone :: ref
  r_data :: blob
  r_updates :: pydict

text \<open>The calls made on the service, in the order they are made.\<close>

datatype request =
    GetZones
  | DeleteZone pyval
  | GetZoneSettings pyval
  | SetZoneSettings pyval "pydict list"
  | GetDnsRecords pyval
  | CreateDnsRecord pyval pydict
  | UpdateDnsRecord pyval pyval pydict
  | DeleteDnsRecord pyval pyval

text \<open>
  The store is total: every reference holds an object of each class, and \<open>fresh\<close> is the
  first reference that no constructor has handed out yet. \<open>remote\<close> is the state of the
  provider and \<open>trace\<close> the requests sent so far.
\<close>

record 's world =
  user_objs :: "ref \<Rightarrow> user"
  zone_objs :: "ref \<Rightarrow> zone"
  settings_objs :: "ref \<Rightarrow> zone_settings"
  record_objs :: "ref \<Rightarrow> dns_record"
  fresh :: ref
  remote :: 's
  trace :: "request list"

section \<open>Attribute access\<close>

text \<open>\<^verbatim>\<open>Zone.__getattr__\<close> (lines 88 to 91).\<close>

definition Zone_getattr :: "zone \<Rightarrow> string \<Rightarrow> error + pyval" where
  "Zone_getattr z name =
     (case z_data z name of
        Some v \<Rightarrow> Inr v
      | None \<Rightarrow> Inl (AttributeError []))"

text \<open>
  \<^verbatim>\<open>Record.__getattr__\<close> (lines 189 to 194): Python calls it for a name that is not a
  member of the object; the pending edits are consulted before the snapshot.
\<close>

definition Record_getattr :: "dns_record \<Rightarrow> string \<Rightarrow> error + pyval" where
  "Record_getattr r name =
     (case map_of (r_updates r) name of
        Some v \<Rightarrow> Inr v
      | None \<Rightarrow>
          (case r_data r name of
             Some v \<Rightarrow> Inr v
           | None \<Rightarrow> Inl (AttributeError [])))"

text \<open>
  What a call of \<^verbatim>\<open>__setattr__\<close> that does not raise has done: it has staged the value in
  \<^verbatim>\<open>_updates\<close>, or it has handed the name and the value to \<^verbatim>\<open>object.__setattr__\<close>,
  which rebinds one of the object's own four attributes (this is how \<^verbatim>\<open>__init__\<close> and
  \<^verbatim>\<open>save\<close> bind them; the model holds them as the fields of the object's record).
\<close>

datatype assigned = Staged | ObjectSetattr string pyval

text \<open>\<^verbatim>\<open>Record.__setattr__\<close> (lines 196 to 202).\<close>

definition Record_setattr ::
  "ref \<Rightarrow> string \<Rightarrow> pyval \<Rightarrow> 's world \<Rightarrow> (error + assigned) \<times> 's world" where
  "Record_setattr r name val w =
     (let self = record_objs w r in
      if name \<in> set [''zone'', ''service'', ''_data'', ''_updates'']
      then (Inr (ObjectSetattr name val), w)
      else if name \<in> dom (r_data self)
      then (Inr Staged,
            w\<lparr>record_objs := (record_objs w)
                 (r := self\<lparr>r_updates := AList.update name val (r_updates self)\<rparr>)\<rparr>)
      else (Inl (AttributeError []), w))"

text \<open>\<^verbatim>\<open>ZoneSettings.__getattr__\<close> (lines 148 to 153).\<close>

fun dict_get :: "(pyval \<times> 'v) list \<Rightarrow> pyval \<Rightarrow> 'v option" where
  "dict_get [] k = None"
| "dict_get ((k', v) # d) k = (if py_eq k' k then Some v else dict_get d k)"

fun dict_set :: "(pyval \<times> 'v) list \<Rightarrow> pyval \<Rightarrow> 'v \<Rightarrow> (pyval \<times> 'v) list" where
  "dict_set [] k v = [(k, v)]"
| "dict_set ((k', v') # d) k v =
     (if py_eq k' k then (k', v) # d else (k', v') # dict_set d k v)"

definition subscript :: "blob \<Rightarrow> string \<Rightarrow> error + pyval" where
  "subscript d k = (case d k of Some v \<Rightarrow> Inr v | None \<Rightarrow> Inl (KeyError k))"

definition ZoneSettings_getattr :: "zone_settings \<Rightarrow> string \<Rightarrow> error + pyval" where
  "ZoneSettings_getattr s name =
     (case map_of (s_updates s) name of
        Some v \<Rightarrow> Inr v
      | None \<Rightarrow>
          (case dict_get (s_settings s) (VStr name) of
             Some setting \<Rightarrow> subscript setting ''value''
           | None \<Rightarrow> Inl (AttributeError [])))"

text \<open>\<^verbatim>\<open>ZoneSettings.__setattr__\<close> (lines 155 to 162).\<close>

definition ZoneSettings_setattr ::
  "ref \<Rightarrow> string \<Rightarrow> pyval \<Rightarrow> 's world \<Rightarrow> (error + assigned) \<times> 's world" where
  "ZoneSettings_setattr s name val w =
     (let self = settings_objs w s in
      if name \<in> set [''zone'', ''service'', ''_settings'', ''_updates'']
      then (Inr (ObjectSetattr name val), w)
      else
        (case dict_get (s_settings self) (VStr name) of
           None \<Rightarrow> (Inl (AttributeError ''Not a valid setting''), w)
         | Some setting \<Rightarrow>
             (case subscript setting ''editable'' of
                Inl e \<Rightarrow> (Inl e, w)
              | Inr editable \<Rightarrow>
                  if \<not> truthy editable
                  then (Inl (ValueError ''Not an editeable setting''), w)
                  else (Inr Staged,
                        w\<lparr>settings_objs := (settings_objs w)
                             (s := self\<lparr>s_updates :=
                                AList.update name val (s_updates self)\<rparr>)\<rparr>))))"

section \<open>The service and its paginated listings\<close>

text \<open>
  The service (\<^verbatim>\<open>pycloudflare.services\<close>) is the external collaborator of section 6 of
  the specification; it is a parameter of the model. A call that changes the provider
  takes the provider's state and returns the new one, with the response or the exception
  the call raised. A listing is answered page by page.
\<close>

datatype 'a pages = LastPage "'a list" | Page "'a list" "'a pages" | PageFailure error

record 's service =
  get_zones :: "'s \<Rightarrow> blob pages"
  delete_zone :: "pyval \<Rightarrow> 's \<Rightarrow> (error + unit) \<times> 's"
  get_zone_settings :: "pyval \<Rightarrow> 's \<Rightarrow> blob pages"
  set_zone_settings :: "pyval \<Rightarrow> pydict list \<Rightarrow> 's \<Rightarrow> (error + unit) \<times> 's"
  get_dns_records :: "pyval \<Rightarrow> 's \<Rightarrow> blob pages"
  create_dns_record :: "pyval \<Rightarrow> pydict \<Rightarrow> 's \<Rightarrow> (error + blob) \<times> 's"
  update_dns_record :: "pyval \<Rightarrow> pyval \<Rightarrow> pydict \<Rightarrow> 's \<Rightarrow> (error + blob) \<times> 's"
  delete_dns_record :: "pyval \<Rightarrow> pyval \<Rightarrow> 's \<Rightarrow> (error + unit) \<times> 's"

text \<open>Sending a request: it is appended to the trace.\<close>

definition send :: "request \<Rightarrow> 's world \<Rightarrow> 's world" where
  "send rq w = w\<lparr>trace := trace w @ [rq]\<rparr>"

text \<open>
  A call that changes the provider: the request is sent, the provider moves to its new
  state, and the response or the exception comes back.
\<close>

definition call ::
  "request \<Rightarrow> ('s \<Rightarrow> (error + 'a) \<times> 's) \<Rightarrow> 's world \<Rightarrow> (error + 'a) \<times> 's world" where
  "call rq f w =
     (case f (remote w) of (res, s') \<Rightarrow> (res, (send rq w)\<lparr>remote := s'\<rparr>))"

text \<open>The body of a \<^verbatim>\<open>for\<close> loop run over a list; an exception leaves the loop.\<close>

fun for_each ::
  "('a \<Rightarrow> 'c \<Rightarrow> 'w \<Rightarrow> (error + 'c) \<times> 'w) \<Rightarrow> 'a list \<Rightarrow> 'c \<Rightarrow> 'w \<Rightarrow> (error + 'c) \<times> 'w" where
  "for_each body [] c w = (Inr c, w)"
| "for_each body (x # xs) c w =
     (case body x c w of
        (Inl e, w') \<Rightarrow> (Inl e, w')
      | (Inr c', w') \<Rightarrow> for_each body xs c' w')"

text \<open>
  Modelled from the spec: \<^verbatim>\<open>CloudFlarePageIterator\<close> of \<^verbatim>\<open>pycloudflare.services\<close>,
  which is not among the sources. Section 6 of the specification: a paginator produces a
  lazy, finite sequence drawn from successive result pages, requests the next page when
  the current one is exhausted and terminates at the final page. Each page costs one
  request; the items of a page pass through the loop body before the next page is
  requested; a page that fails raises its exception in the loop.
\<close>

fun CloudFlarePageIterator ::
  "request \<Rightarrow> ('a \<Rightarrow> 'c \<Rightarrow> 's world \<Rightarrow> (error + 'c) \<times> 's world) \<Rightarrow> 'a pages \<Rightarrow> 'c \<Rightarrow>
     's world \<Rightarrow> (error + 'c) \<times> 's world" where
  "CloudFlarePageIterator rq body (PageFailure e) c w = (Inl e, send rq w)"
| "CloudFlarePageIterator rq body (LastPage xs) c w = for_each body xs c (send rq w)"
| "CloudFlarePageIterator rq body (Page xs rest) c w =
     (case for_each body xs c (send rq w) of
        (Inl e, w') \<Rightarrow> (Inl e, w')
      | (Inr c', w') \<Rightarrow> CloudFlarePageIterator rq body rest c' w')"

text \<open>The items of a listing, page after page, up to a page that fails.\<close>

fun page_items :: "'a pages \<Rightarrow> 'a list" where
  "page_items (LastPage xs) = xs"
| "page_items (Page xs rest) = xs @ page_items rest"
| "page_items (PageFailure e) = []"

section \<open>User and Zone\<close>

text \<open>\<^verbatim>\<open>Zone.__init__\<close> (lines 83 to 86): a new object, with both caches empty.\<close>

definition Zone_init :: "ref \<Rightarrow> blob \<Rightarrow> 's world \<Rightarrow> ref \<times> 's world" where
  "Zone_init u data w =
     (fresh w,
      w\<lparr>zone_objs := (zone_objs w)
           (fresh w := \<lparr>z_user = u, z_data = data, z_settings = None, z_records = None\<rparr>),
        fresh := Suc (fresh w)\<rparr>)"

text \<open>\<^verbatim>\<open>Record.__init__\<close> (lines 183 to 187).\<close>

definition Record_init :: "ref \<Rightarrow> blob \<Rightarrow> 's world \<Rightarrow> ref \<times> 's world" where
  "Record_init z data w =
     (fresh w,
      w\<lparr>record_objs := (record_objs w)
           (fresh w := \<lparr>r_zone = z, r_data = data, r_updates = []\<rparr>),
        fresh := Suc (fresh w)\<rparr>)"

text \<open>\<^verbatim>\<open>clear_property_cache(user, 'zones')\<close> and \<^verbatim>\<open>clear_property_cache(zone, 'records')\<close>.\<close>

definition clear_zones :: "ref \<Rightarrow> 's world \<Rightarrow> 's world" where
  "clear_zones u w = w\<lparr>user_objs := (user_objs w)(u := (user_objs w u)\<lparr>u_zones := None\<rparr>)\<rparr>"

definition clear_records :: "ref \<Rightarrow> 's world \<Rightarrow> 's world" where
  "clear_records z w = w\<lparr>zone_objs := (zone_objs w)(z := (zone_objs w z)\<lparr>z_records := None\<rparr>)\<rparr>"

text \<open>
  \<^verbatim>\<open>User.iter_zones\<close> (lines 53 to 55) drained by \<^verbatim>\<open>list\<close>, and the cached property
  \<^verbatim>\<open>User.zones\<close> (lines 49 to 51): the list is computed when the cache is empty, and
  stored when the computation has returned.
\<close>

definition iter_zones :: "'s service \<Rightarrow> ref \<Rightarrow> 's world \<Rightarrow> (error + ref list) \<times> 's world" where
  "iter_zones svc u w =
     CloudFlarePageIterator GetZones
       (\<lambda>data acc w'. case Zone_init u data w' of (z, w'') \<Rightarrow> (Inr (acc @ [z]), w''))
       (get_zones svc (remote w)) [] w"

definition User_zones :: "'s service \<Rightarrow> ref \<Rightarrow> 's world \<Rightarrow> (error + ref list) \<times> 's world" where
  "User_zones svc u w =
     (case u_zones (user_objs w u) of
        Some zs \<Rightarrow> (Inr zs, w)
      | None \<Rightarrow>
          (case iter_zones svc u w of
             (Inl e, w') \<Rightarrow> (Inl e, w')
           | (Inr zs, w') \<Rightarrow>
               (Inr zs, w'\<lparr>user_objs := (user_objs w')
                              (u := (user_objs w' u)\<lparr>u_zones := Some zs\<rparr>)\<rparr>)))"

text \<open>\<^verbatim>\<open>Zone.delete\<close> (lines 93 to 95).\<close>

definition Zone_delete :: "'s service \<Rightarrow> ref \<Rightarrow> 's world \<Rightarrow> (error + unit) \<times> 's world" where
  "Zone_delete svc z w =
     (let self = zone_objs w z in
      case Zone_getattr self ''id'' of
        Inl e \<Rightarrow> (Inl e, w)
      | Inr zid \<Rightarrow>
          (case call (DeleteZone zid) (delete_zone svc zid) w of
             (Inl e, w') \<Rightarrow> (Inl e, w')
           | (Inr _, w') \<Rightarrow> (Inr (), clear_zones (z_user self) w')))"

text \<open>
  \<^verbatim>\<open>by_name.setdefault(name, []).append(record)\<close>: the record goes to the end of the list
  under its name, and a name not seen before gets a new list at the end of the dictionary.
\<close>

fun setdefault_append :: "(pyval \<times> 'a list) list \<Rightarrow> pyval \<Rightarrow> 'a \<Rightarrow> (pyval \<times> 'a list) list" where
  "setdefault_append [] k x = [(k, [x])]"
| "setdefault_append ((k', xs) # d) k x =
     (if py_eq k' k then (k', xs @ [x]) # d else (k', xs) # setdefault_append d k x)"

text \<open>
  \<^verbatim>\<open>value.sort(key=...)\<close>: Python computes the key of every element first, in the order
  of the list, and then sorts by \<^verbatim>\<open><\<close> on the keys. The sort is stable, so its result is
  the one of a stable insertion sort; an exception of a key or of a comparison leaves
  the sort.
\<close>

fun with_keys :: "('a \<Rightarrow> error + 'k) \<Rightarrow> 'a list \<Rightarrow> error + ('k \<times> 'a) list" where
  "with_keys f [] = Inr []"
| "with_keys f (x # xs) =
     (case f x of
        Inl e \<Rightarrow> Inl e
      | Inr k \<Rightarrow>
          (case with_keys f xs of
             Inl e \<Rightarrow> Inl e
           | Inr ks \<Rightarrow> Inr ((k, x) # ks)))"

fun insert_by :: "('k \<Rightarrow> 'k \<Rightarrow> error + bool) \<Rightarrow> 'k \<times> 'a \<Rightarrow> ('k \<times> 'a) list \<Rightarrow> error + ('k \<times> 'a) list" where
  "insert_by lt x [] = Inr [x]"
| "insert_by lt x (y # ys) =
     (case lt (fst x) (fst y) of
        Inl e \<Rightarrow> Inl e
      | Inr True \<Rightarrow> Inr (x # y # ys)
      | Inr False \<Rightarrow>
          (case insert_by lt x ys of
             Inl e \<Rightarrow> Inl e
           | Inr zs \<Rightarrow> Inr (y # zs)))"

fun sort_by :: "('k \<Rightarrow> 'k \<Rightarrow> error + bool) \<Rightarrow> ('k \<times> 'a) list \<Rightarrow> ('k \<times> 'a) list \<Rightarrow> error + ('k \<times> 'a) list" where
  "sort_by lt [] acc = Inr acc"
| "sort_by lt (x # xs) acc =
     (case insert_by lt x acc of
        Inl e \<Rightarrow> Inl e
      | Inr acc' \<Rightarrow> sort_by lt xs acc')"

definition list_sort :: "('a \<Rightarrow> error + pyval \<times> pyval) \<Rightarrow> 'a list \<Rightarrow> error + 'a list" where
  "list_sort key xs =
     (case with_keys key xs of
        Inl e \<Rightarrow> Inl e
      | Inr kxs \<Rightarrow>
          (case sort_by key_lt kxs [] of
             Inl e \<Rightarrow> Inl e
           | Inr sorted_kxs \<Rightarrow> Inr (map snd sorted_kxs)))"

text \<open>The key \<^verbatim>\<open>lambda r: (r.type, r.content)\<close>, read through \<^verbatim>\<open>Record.__getattr__\<close>.\<close>

definition record_key :: "'s world \<Rightarrow> ref \<Rightarrow> error + pyval \<times> pyval" where
  "record_key w r =
     (case Record_getattr (record_objs w r) ''type'' of
        Inl e \<Rightarrow> Inl e
      | Inr t \<Rightarrow>
          (case Record_getattr (record_objs w r) ''content'' of
             Inl e \<Rightarrow> Inl e
           | Inr c \<Rightarrow> Inr (t, c)))"

text \<open>The loop over \<^verbatim>\<open>itervalues(by_name)\<close> (lines 111 and 112).\<close>

fun sort_values ::
  "('a \<Rightarrow> error + pyval \<times> pyval) \<Rightarrow> (pyval \<times> 'a list) list \<Rightarrow> error + (pyval \<times> 'a list) list" where
  "sort_values key [] = Inr []"
| "sort_values key ((k, v) # d) =
     (case list_sort key v of
        Inl e \<Rightarrow> Inl e
      | Inr v' \<Rightarrow>
          (case sort_values key d of
             Inl e \<Rightarrow> Inl e
           | Inr d' \<Rightarrow> Inr ((k, v') # d')))"

text \<open>
  \<^verbatim>\<open>Zone.iter_records\<close> (lines 101 to 104) as the first loop of \<^verbatim>\<open>records\<close> drives it:
  \<^verbatim>\<open>self.id\<close> is read when the generator starts, each item of a page becomes a
  \<^verbatim>\<open>Record\<close>, and the loop body files it under \<^verbatim>\<open>record.name\<close>.
\<close>

definition file_record ::
  "ref \<Rightarrow> blob \<Rightarrow> (pyval \<times> ref list) list \<Rightarrow> 's world \<Rightarrow>
     (error + (pyval \<times> ref list) list) \<times> 's world" where
  "file_record z data by_name w =
     (case Record_init z data w of
        (r, w') \<Rightarrow>
          (case Record_getattr (record_objs w' r) ''name'' of
             Inl e \<Rightarrow> (Inl e, w')
           | Inr name \<Rightarrow> (Inr (setdefault_append by_name name r), w')))"

text \<open>The body of the property \<^verbatim>\<open>Zone.records\<close> (lines 107 to 113).\<close>

definition build_records ::
  "'s service \<Rightarrow> ref \<Rightarrow> 's world \<Rightarrow> (error + (pyval \<times> ref list) list) \<times> 's world" where
  "build_records svc z w =
     (case Zone_getattr (zone_objs w z) ''id'' of
        Inl e \<Rightarrow> (Inl e, w)
      | Inr zid \<Rightarrow>
          (case CloudFlarePageIterator (GetDnsRecords zid) (file_record z)
                  (get_dns_records svc zid (remote w)) [] w of
             (Inl e, w') \<Rightarrow> (Inl e, w')
           | (Inr by_name, w') \<Rightarrow>
               (case sort_values (record_key w') by_name of
                  Inl e \<Rightarrow> (Inl e, w')
                | Inr sorted_by_name \<Rightarrow> (Inr sorted_by_name, w'))))"

text \<open>The cached property \<^verbatim>\<open>Zone.records\<close> (line 106).\<close>

definition Zone_records ::
  "'s service \<Rightarrow> ref \<Rightarrow> 's world \<Rightarrow> (error + (pyval \<times> ref list) list) \<times> 's world" where
  "Zone_records svc z w =
     (case z_records (zone_objs w z) of
        Some by_name \<Rightarrow> (Inr by_name, w)
      | None \<Rightarrow>
          (case build_records svc z w of
             (Inl e, w') \<Rightarrow> (Inl e, w')
           | (Inr by_name, w') \<Rightarrow>
               (Inr by_name,
                w'\<lparr>zone_objs := (zone_objs w')
                     (z := (zone_objs w' z)\<lparr>z_records := Some by_name\<rparr>)\<rparr>)))"

text \<open>
  \<^verbatim>\<open>Zone.create_record\<close> (lines 115 to 129). The defaults of the source are
  \<^verbatim>\<open>ttl=1\<close>, \<^verbatim>\<open>proxied=False\<close> and \<^verbatim>\<open>priority=10\<close>; here every argument is given.
\<close>

definition create_record_data ::
  "pyval \<Rightarrow> pyval \<Rightarrow> pyval \<Rightarrow> pyval \<Rightarrow> pyval \<Rightarrow> pyval \<Rightarrow> pydict" where
  "create_record_data name type content ttl proxied priority =
     (let data = [(''name'', name), (''type'', type), (''content'', content),
                  (''ttl'', ttl), (''proxied'', proxied)]
      in if py_eq type (VStr ''MX'')
         then AList.update ''priority'' priority data
         else data)"

definition Zone_create_record ::
  "'s service \<Rightarrow> ref \<Rightarrow> pyval \<Rightarrow> pyval \<Rightarrow> pyval \<Rightarrow> pyval \<Rightarrow> pyval \<Rightarrow> pyval \<Rightarrow> 's world \<Rightarrow>
     (error + ref) \<times> 's world" where
  "Zone_create_record svc z name type content ttl proxied priority w =
     (let data = create_record_data name type content ttl proxied priority in
      case Zone_getattr (zone_objs w z) ''id'' of
        Inl e \<Rightarrow> (Inl e, w)
      | Inr zid \<Rightarrow>
          (case call (CreateDnsRecord zid data) (create_dns_record svc zid data) w of
             (Inl e, w') \<Rightarrow> (Inl e, w')
           | (Inr record, w') \<Rightarrow>
               (case Record_init z record (clear_records z w') of
                  (r, w'') \<Rightarrow> (Inr r, w''))))"

section \<open>ZoneSettings\<close>

text \<open>
  \<^verbatim>\<open>ZoneSettings._get_settings\<close> (lines 142 to 146): the snapshot is emptied first, then
  filled setting by setting as the pages arrive.
\<close>

definition store_setting :: "ref \<Rightarrow> blob \<Rightarrow> unit \<Rightarrow> 's world \<Rightarrow> (error + unit) \<times> 's world" where
  "store_setting s setting u w =
     (case subscript setting ''id'' of
        Inl e \<Rightarrow> (Inl e, w)
      | Inr k \<Rightarrow>
          (Inr (),
           w\<lparr>settings_objs := (settings_objs w)
                (s := (settings_objs w s)
                   \<lparr>s_settings := dict_set (s_settings (settings_objs w s)) k setting\<rparr>)\<rparr>))"

definition ZoneSettings_get_settings ::
  "'s service \<Rightarrow> ref \<Rightarrow> 's world \<Rightarrow> (error + unit) \<times> 's world" where
  "ZoneSettings_get_settings svc s w =
     (let w1 = w\<lparr>settings_objs := (settings_objs w)
                    (s := (settings_objs w s)\<lparr>s_settings := []\<rparr>)\<rparr>
      in case Zone_getattr (zone_objs w1 (s_zone (settings_objs w1 s))) ''id'' of
           Inl e \<Rightarrow> (Inl e, w1)
         | Inr zid \<Rightarrow>
             CloudFlarePageIterator (GetZoneSettings zid) (store_setting s)
               (get_zone_settings svc zid (remote w1)) () w1)"

text \<open>\<^verbatim>\<open>ZoneSettings.__init__\<close> (lines 136 to 140).\<close>

definition ZoneSettings_init :: "'s service \<Rightarrow> ref \<Rightarrow> 's world \<Rightarrow> (error + ref) \<times> 's world" where
  "ZoneSettings_init svc z w =
     (let s = fresh w;
          w1 = w\<lparr>settings_objs := (settings_objs w)
                    (s := \<lparr>s_zone = z, s_settings = [], s_updates = []\<rparr>),
                 fresh := Suc (fresh w)\<rparr>
      in case ZoneSettings_get_settings svc s w1 of
           (Inl e, w2) \<Rightarrow> (Inl e, w2)
         | (Inr _, w2) \<Rightarrow>
             (Inr s,
              w2\<lparr>settings_objs := (settings_objs w2)
                   (s := (settings_objs w2 s)\<lparr>s_updates := []\<rparr>)\<rparr>))"

text \<open>The cached property \<^verbatim>\<open>Zone.settings\<close> (lines 97 to 99).\<close>

definition Zone_settings :: "'s service \<Rightarrow> ref \<Rightarrow> 's world \<Rightarrow> (error + ref) \<times> 's world" where
  "Zone_settings svc z w =
     (case z_settings (zone_objs w z) of
        Some s \<Rightarrow> (Inr s, w)
      | None \<Rightarrow>
          (case ZoneSettings_init svc z w of
             (Inl e, w') \<Rightarrow> (Inl e, w')
           | (Inr s, w') \<Rightarrow>
               (Inr s,
                w'\<lparr>zone_objs := (zone_objs w')
                     (z := (zone_objs w' z)\<lparr>z_settings := Some s\<rparr>)\<rparr>)))"

text \<open>\<^verbatim>\<open>ZoneSettings.save\<close> (lines 164 to 171).\<close>

definition settings_items :: "pydict \<Rightarrow> pydict list" where
  "settings_items updates =
     map (\<lambda>(name, val). [(''id'', VStr name), (''value'', val)]) updates"

definition ZoneSettings_save :: "'s service \<Rightarrow> ref \<Rightarrow> 's world \<Rightarrow> (error + unit) \<times> 's world" where
  "ZoneSettings_save svc s w =
     (let self = settings_objs w s in
      if s_updates self = [] then (Inr (), w)
      else
        (let items = settings_items (s_updates self) in
         case Zone_getattr (zone_objs w (s_zone self)) ''id'' of
           Inl e \<Rightarrow> (Inl e, w)
         | Inr zid \<Rightarrow>
             (case call (SetZoneSettings zid items) (set_zone_settings svc zid items) w of
                (Inl e, w1) \<Rightarrow> (Inl e, w1)
              | (Inr _, w1) \<Rightarrow>
                  (case ZoneSettings_get_settings svc s w1 of
                     (Inl e, w2) \<Rightarrow> (Inl e, w2)
                   | (Inr _, w2) \<Rightarrow>
                       (Inr (),
                        w2\<lparr>settings_objs := (settings_objs w2)
                             (s := (settings_objs w2 s)\<lparr>s_updates := []\<rparr>)\<rparr>)))))"

section \<open>Record\<close>

text \<open>\<^verbatim>\<open>Record.save\<close> (lines 204 to 211).\<close>

definition Record_save :: "'s service \<Rightarrow> ref \<Rightarrow> 's world \<Rightarrow> (error + unit) \<times> 's world" where
  "Record_save svc r w =
     (let self = record_objs w r in
      if r_updates self \<noteq> [] then
        (case Zone_getattr (zone_objs w (r_zone self)) ''id'' of
           Inl e \<Rightarrow> (Inl e, w)
         | Inr zid \<Rightarrow>
             (case Record_getattr self ''id'' of
                Inl e \<Rightarrow> (Inl e, w)
              | Inr rid \<Rightarrow>
                  (case call (UpdateDnsRecord zid rid (r_updates self))
                          (update_dns_record svc zid rid (r_updates self)) w of
                     (Inl e, w1) \<Rightarrow> (Inl e, w1)
                   | (Inr result, w1) \<Rightarrow>
                       (let w2 = w1\<lparr>record_objs := (record_objs w1)
                                      (r := (record_objs w1 r)
                                         \<lparr>r_data := r_data (record_objs w1 r) ++ result\<rparr>)\<rparr>;
                            w3 = (if ''name'' \<in> fst ` set (r_updates (record_objs w2 r))
                                  then clear_records (r_zone (record_objs w2 r)) w2
                                  else w2)
                        in (Inr (),
                            w3\<lparr>record_objs := (record_objs w3)
                                 (r := (record_objs w3 r)\<lparr>r_updates := []\<rparr>)\<rparr>)))))
      else (Inr (), w))"

text \<open>\<^verbatim>\<open>Record.delete\<close> (lines 213 to 215).\<close>

definition Record_delete :: "'s service \<Rightarrow> ref \<Rightarrow> 's world \<Rightarrow> (error + unit) \<times> 's world" where
  "Record_delete svc r w =
     (let self = record_objs w r in
      case Zone_getattr (zone_objs w (r_zone self)) ''id'' of
        Inl e \<Rightarrow> (Inl e, w)
      | Inr zid \<Rightarrow>
          (case Record_getattr self ''id'' of
             Inl e \<Rightarrow> (Inl e, w)
           | Inr rid \<Rightarrow>
               (case call (DeleteDnsRecord zid rid) (delete_dns_record svc zid rid) w of
                  (Inl e, w1) \<Rightarrow> (Inl e, w1)
                | (Inr _, w1) \<Rightarrow> (Inr (), clear_records (r_zone self) w1))))"

section \<open>A fake provider and a sample store\<close>

text \<open>
  Section 6 of the specification asks that the model be testable against a fake of the
  service. The state of this fake is the list of DNS records it holds; it answers a
  record listing in two pages and accepts every change.
\<close>

definition fake_service :: "blob list service" where
  "fake_service =
     \<lparr>get_zones = (\<lambda>s. LastPage [[''id'' \<mapsto> VStr ''z1'', ''name'' \<mapsto> VStr ''example.com'']]),
      delete_zone = (\<lambda>zid s. (Inr (), s)),
      get_zone_settings = (\<lambda>zid s. LastPage []),
      set_zone_settings = (\<lambda>zid items s. (Inr (), s)),
      get_dns_records =
        (\<lambda>zid s. case s of [] \<Rightarrow> LastPage [] | x # xs \<Rightarrow> Page [x] (LastPage xs)),
      create_dns_record =
        (\<lambda>zid data s. (Inr ((map_of data)(''id'' \<mapsto> VStr ''r9'')),
                        s @ [(map_of data)(''id'' \<mapsto> VStr ''r9'')])),
      update_dns_record = (\<lambda>zid rid data s. (Inr (map_of data), s)),
      delete_dns_record = (\<lambda>zid rid s. (Inr (), s))\<rparr>"

definition sample_record :: blob where
  "sample_record = [''id'' \<mapsto> VStr ''r1'', ''name'' \<mapsto> VStr ''www'', ''type'' \<mapsto> VStr ''A'',
                    ''content'' \<mapsto> VStr ''1.2.3.4'', ''ttl'' \<mapsto> VInt 300]"

definition sample_plan :: blob where
  "sample_plan = [''id'' \<mapsto> VStr ''plan'', ''value'' \<mapsto> VStr ''free'', ''editable'' \<mapsto> VBool False]"

text \<open>
  A store in which user 0 owns zone 0, whose zone list, settings and record index have
  been built; record 0 is in the index.
\<close>

definition sample_world :: "blob list world" where
  "sample_world =
     \<lparr>user_objs = (\<lambda>_. \<lparr>u_email = VStr ''a@example.com'', u_zones = Some [0]\<rparr>),
      zone_objs = (\<lambda>_. \<lparr>z_user = 0,
                          z_data = [''id'' \<mapsto> VStr ''z1'', ''name'' \<mapsto> VStr ''example.com''],
                          z_settings = Some 0, z_records = Some [(VStr ''www'', [0])]\<rparr>),
      settings_objs = (\<lambda>_. \<lparr>s_zone = 0,
          s_settings =
            [(VStr ''ssl'', [''id'' \<mapsto> VStr ''ssl'', ''value'' \<mapsto> VStr ''full'',
                             ''editable'' \<mapsto> VBool True]),
             (VStr ''plan'', sample_plan)],
          s_updates = []\<rparr>),
      record_objs = (\<lambda>_. \<lparr>r_zone = 0, r_data = sample_record, r_updates = []\<rparr>),
      fresh = 1,
      remote = [sample_record],
      trace = []\<rparr>"

text \<open>The same store after \<^verbatim>\<open>record.name = 'mail'\<close> on record 0.\<close>

definition renamed_world :: "blob list world" where
  "renamed_world = snd (Record_setattr 0 ''name'' (VStr ''mail'') sample_world)"

text \<open>
  The same store with the record index of zone 0 not built, and three records at the
  provider: two named \<^verbatim>\<open>www\<close>, listed out of order, and one named \<^verbatim>\<open>mail\<close>.
\<close>

definition unbuilt_world :: "blob list world" where
  "unbuilt_world =
     (clear_records 0 sample_world)
       \<lparr>remote := [sample_record(''id'' \<mapsto> VStr ''r2'', ''content'' \<mapsto> VStr ''5.6.7.8''),
                   sample_record(''id'' \<mapsto> VStr ''r3'', ''name'' \<mapsto> VStr ''mail'',
                                 ''type'' \<mapsto> VStr ''MX'', ''content'' \<mapsto> VStr ''mx.example.com''),
                   sample_record]\<rparr>"

section \<open>Basic facts\<close>

lemma py_eq_refl [simp]: "py_eq a a"
  by (cases a) (simp_all add: py_eq_def)

lemma py_eq_sym: "py_eq a b = py_eq b a"
  by (cases a; cases b) (auto simp: py_eq_def)

lemma py_eq_trans: "py_eq a b \<Longrightarrow> py_eq b c \<Longrightarrow> py_eq a c"
  by (cases a; cases b; cases c) (auto simp: py_eq_def split: if_splits)

lemma py_eq_VStr [simp]: "py_eq a (VStr s) = (a = VStr s)" "py_eq (VStr s) a = (a = VStr s)"
  by (cases a; auto simp: py_eq_def)+

lemma trace_call [simp]: "trace (snd (call rq f w)) = trace w @ [rq]"
  by (simp add: call_def send_def split: prod.splits)

lemma call_eq:
  "f (remote w) = (res, s') \<Longrightarrow> call rq f w = (res, w\<lparr>trace := trace w @ [rq], remote := s'\<rparr>)"
  by (simp add: call_def send_def)

lemma map_add_right_None: "n k = None \<Longrightarrow> (m ++ n) k = m k"
  by (simp add: map_add_def)

lemma update_not_Nil [simp]: "AList.update k v al \<noteq> []"
  by (cases al) auto

lemma renamed_world_eq:
  "renamed_world = sample_world\<lparr>record_objs := (record_objs sample_world)
     (0 := \<lparr>r_zone = 0, r_data = sample_record, r_updates = [(''name'', VStr ''mail'')]\<rparr>)\<rparr>"
  by (simp add: renamed_world_def Record_setattr_def sample_world_def sample_record_def Let_def)

section \<open>The payload of create_record\<close>

text \<open>
  Claim C3. Every call of \<^verbatim>\<open>Zone.create_record\<close> posts one payload to the records
  endpoint (none when the zone has no \<^verbatim>\<open>id\<close> and the call raises before posting). The
  payload has a \<^verbatim>\<open>priority\<close> field if and only if the type is \<^verbatim>\<open>'MX'\<close>, in which case
  it carries the argument; \<^verbatim>\<open>name\<close>, \<^verbatim>\<open>type\<close>, \<^verbatim>\<open>content\<close>, \<^verbatim>\<open>ttl\<close> and
  \<^verbatim>\<open>proxied\<close> are always in it.
\<close>

theorem create_record_payload:
  "trace (snd (Zone_create_record svc z name type content ttl proxied priority w)) =
     trace w @ (case z_data (zone_objs w z) ''id'' of
                  None \<Rightarrow> []
                | Some zid \<Rightarrow>
                    [CreateDnsRecord zid
                       (create_record_data name type content ttl proxied priority)])
   \<and> (''priority'' \<in> fst ` set (create_record_data name type content ttl proxied priority)
        \<longleftrightarrow> type = VStr ''MX'')
   \<and> (type = VStr ''MX'' \<longrightarrow>
        map_of (create_record_data name type content ttl proxied priority) ''priority''
          = Some priority)
   \<and> map_of (create_record_data name type content ttl proxied priority) ''name'' = Some name
   \<and> map_of (create_record_data name type content ttl proxied priority) ''type'' = Some type
   \<and> map_of (create_record_data name type content ttl proxied priority) ''content''
        = Some content
   \<and> map_of (create_record_data name type content ttl proxied priority) ''ttl'' = Some ttl
   \<and> map_of (create_record_data name type content ttl proxied priority) ''proxied''
        = Some proxied"
proof -
  have "trace (snd (Zone_create_record svc z name type content ttl proxied priority w)) =
     trace w @ (case z_data (zone_objs w z) ''id'' of
                  None \<Rightarrow> []
                | Some zid \<Rightarrow>
                    [CreateDnsRecord zid
                       (create_record_data name type content ttl proxied priority)])"
    by (auto simp: Zone_create_record_def Zone_getattr_def Record_init_def clear_records_def
        call_def send_def Let_def split: option.splits sum.splits prod.splits)
  moreover have "''priority'' \<in> fst ` set (create_record_data name type content ttl proxied priority)
        \<longleftrightarrow> type = VStr ''MX''"
    by (simp add: create_record_data_def Let_def)
  moreover have "type = VStr ''MX'' \<longrightarrow>
        map_of (create_record_data name type content ttl proxied priority) ''priority''
          = Some priority"
    by (simp add: create_record_data_def Let_def)
  moreover have
    "map_of (create_record_data name type content ttl proxied priority) ''name'' = Some name"
    "map_of (create_record_data name type content ttl proxied priority) ''type'' = Some type"
    "map_of (create_record_data name type content ttl proxied priority) ''content'' = Some content"
    "map_of (create_record_data name type content ttl proxied priority) ''ttl'' = Some ttl"
    "map_of (create_record_data name type content ttl proxied priority) ''proxied'' = Some proxied"
    by (simp_all add: create_record_data_def Let_def)
  ultimately show ?thesis
    by (intro conjI)
qed

theorem create_record_payload_witness:
  "trace (snd (Zone_create_record fake_service 0 (VStr ''www'') (VStr ''A'') (VStr ''1.2.3.4'')
                 (VInt 300) (VBool False) (VInt 10) sample_world))
     = [CreateDnsRecord (VStr ''z1'')
          [(''name'', VStr ''www''), (''type'', VStr ''A''), (''content'', VStr ''1.2.3.4''),
           (''ttl'', VInt 300), (''proxied'', VBool False)]]
   \<and> create_record_data (VStr ''mx'') (VStr ''MX'') (VStr ''mail.example.com'')
        (VInt 1) (VBool False) (VInt 10)
     = [(''name'', VStr ''mx''), (''type'', VStr ''MX''), (''content'', VStr ''mail.example.com''),
        (''ttl'', VInt 1), (''proxied'', VBool False), (''priority'', VInt 10)]"
  using create_record_payload [of fake_service 0 "VStr ''www''" "VStr ''A''" "VStr ''1.2.3.4''"
      "VInt 300" "VBool False" "VInt 10" sample_world]
  by (simp add: create_record_data_def sample_world_def)

section \<open>Writing attributes\<close>

text \<open>
  Claim C4. Writing a setting that the fetched snapshot holds with a false
  \<^verbatim>\<open>editable\<close> flag raises \<^verbatim>\<open>ValueError\<close> (NotEditableError in the specification) and
  returns the store as it was: the pending edits are unchanged and the trace has no new
  request. A setting-id is a name other than the four attributes of the object itself,
  which line 156 hands to \<^verbatim>\<open>object.__setattr__\<close>.
\<close>

theorem settings_not_editable:
  assumes "name \<notin> set [''zone'', ''service'', ''_settings'', ''_updates'']"
    and "dict_get (s_settings (settings_objs w s)) (VStr name) = Some setting"
    and "setting ''editable'' = Some flag"
    and "\<not> truthy flag"
  shows "ZoneSettings_setattr s name val w = (Inl (ValueError ''Not an editeable setting''), w)"
  using assms by (simp add: ZoneSettings_setattr_def subscript_def Let_def)

theorem settings_not_editable_witness:
  "ZoneSettings_setattr 0 ''plan'' (VStr ''pro'') sample_world
     = (Inl (ValueError ''Not an editeable setting''), sample_world)"
  by (rule settings_not_editable [where setting = sample_plan and flag = "VBool False"])
     (simp_all add: sample_world_def sample_plan_def)

text \<open>
  Claim C5. Writing a field that the last-fetched snapshot of a record does not hold
  raises \<^verbatim>\<open>AttributeError\<close> (AttributeNotFoundError) and returns the store as it was;
  writing a field that the snapshot holds stages the value in the pending edits, leaves
  the other edits and the snapshot alone, and sends nothing to the provider. A field name
  is a name other than the four attributes of the object itself (line 197).
\<close>

theorem record_setattr_fields:
  assumes "name \<notin> set [''zone'', ''service'', ''_data'', ''_updates'']"
  shows "(r_data (record_objs w r) name = None \<longrightarrow>
            Record_setattr r name val w = (Inl (AttributeError []), w))
       \<and> (r_data (record_objs w r) name \<noteq> None \<longrightarrow>
            (case Record_setattr r name val w of
               (res, w') \<Rightarrow>
                 res = Inr Staged
                 \<and> map_of (r_updates (record_objs w' r)) name = Some val
                 \<and> (\<forall>k. k \<noteq> name \<longrightarrow> map_of (r_updates (record_objs w' r)) k
                                        = map_of (r_updates (record_objs w r)) k)
                 \<and> r_data (record_objs w' r) = r_data (record_objs w r)
                 \<and> trace w' = trace w \<and> remote w' = remote w))"
  using assms
  by (auto simp: Record_setattr_def Let_def update_conv')

theorem record_setattr_fields_witness:
  "Record_setattr 0 ''colour'' (VStr ''red'') sample_world = (Inl (AttributeError []), sample_world)
   \<and> fst (Record_setattr 0 ''name'' (VStr ''mail'') sample_world) = Inr Staged
   \<and> r_updates (record_objs renamed_world 0) = [(''name'', VStr ''mail'')]"
  using record_setattr_fields [of "''colour''" sample_world 0 "VStr ''red''"]
    record_setattr_fields [of "''name''" sample_world 0 "VStr ''mail''"]
  by (simp add: renamed_world_eq split: prod.splits)
     (simp add: sample_world_def sample_record_def)

section \<open>Reading attributes\<close>

text \<open>
  Claim C6. Reading an attribute of a record or of the settings returns the pending edit
  staged under the name if there is one, otherwise the last-fetched value (for a setting,
  the \<^verbatim>\<open>value\<close> field of its descriptor), and raises \<^verbatim>\<open>AttributeError\<close> when the name
  is neither staged nor in the snapshot.
\<close>

theorem getattr_resolution:
  "(map_of (r_updates r) name = Some v \<longrightarrow> Record_getattr r name = Inr v)
   \<and> (map_of (r_updates r) name = None \<and> r_data r name = Some v \<longrightarrow>
        Record_getattr r name = Inr v)
   \<and> (map_of (r_updates r) name = None \<and> r_data r name = None \<longrightarrow>
        Record_getattr r name = Inl (AttributeError []))
   \<and> (map_of (s_updates s) name = Some v \<longrightarrow> ZoneSettings_getattr s name = Inr v)
   \<and> (map_of (s_updates s) name = None \<and> dict_get (s_settings s) (VStr name) = Some setting
        \<and> setting ''value'' = Some v \<longrightarrow> ZoneSettings_getattr s name = Inr v)
   \<and> (map_of (s_updates s) name = None \<and> dict_get (s_settings s) (VStr name) = None \<longrightarrow>
        ZoneSettings_getattr s name = Inl (AttributeError []))"
  by (simp add: Record_getattr_def ZoneSettings_getattr_def subscript_def)

theorem getattr_resolution_witness:
  "Record_getattr (record_objs renamed_world 0) ''name'' = Inr (VStr ''mail'')
   \<and> ZoneSettings_getattr (settings_objs sample_world 0) ''plan'' = Inr (VStr ''free'')"
  using getattr_resolution [where r = "record_objs renamed_world 0" and name = "''name''"
      and v = "VStr ''mail''"]
    getattr_resolution [where s = "settings_objs sample_world 0" and name = "''plan''"
      and v = "VStr ''free''" and setting = sample_plan]
  by (simp add: renamed_world_eq)
     (simp add: sample_world_def sample_plan_def)

section \<open>Saving\<close>

text \<open>
  Claim C7. \<^verbatim>\<open>ZoneSettings.save\<close> with no pending edit returns at once: the store is
  the same afterwards, so the snapshot and the pending edits are unchanged and the trace
  has neither a \<^verbatim>\<open>set_zone_settings\<close> request nor a page of the settings listing.
\<close>

theorem settings_save_noop:
  "s_updates (settings_objs w s) = [] \<Longrightarrow> ZoneSettings_save svc s w = (Inr (), w)"
  by (simp add: ZoneSettings_save_def)

theorem settings_save_noop_witness:
  "ZoneSettings_save fake_service 0 sample_world = (Inr (), sample_world)"
  by (rule settings_save_noop) (simp add: sample_world_def)

text \<open>
  Claim C8. \<^verbatim>\<open>Record.save\<close> with pending edits, on a record whose zone and own
  \<^verbatim>\<open>id\<close> resolve and whose update the provider accepts, sends the pending edits in one
  update request and nothing else, overwrites the snapshot key by key with the response
  (a key that the response lacks keeps its value), and empties the pending edits.
\<close>

theorem record_save_merges:
  assumes "r_updates (record_objs w r) \<noteq> []"
    and "z_data (zone_objs w (r_zone (record_objs w r))) ''id'' = Some zid"
    and "Record_getattr (record_objs w r) ''id'' = Inr rid"
    and "update_dns_record svc zid rid (r_updates (record_objs w r)) (remote w)
           = (Inr result, s')"
  shows "case Record_save svc r w of
           (res, w') \<Rightarrow>
             res = Inr ()
             \<and> trace w' = trace w @ [UpdateDnsRecord zid rid (r_updates (record_objs w r))]
             \<and> remote w' = s'
             \<and> r_data (record_objs w' r) = r_data (record_objs w r) ++ result
             \<and> (\<forall>k. result k = None \<longrightarrow>
                   r_data (record_objs w' r) k = r_data (record_objs w r) k)
             \<and> (\<forall>k v. result k = Some v \<longrightarrow> r_data (record_objs w' r) k = Some v)
             \<and> r_updates (record_objs w' r) = []"
  using assms
  by (simp add: Record_save_def Zone_getattr_def call_eq clear_records_def Let_def
      map_add_right_None)

theorem record_save_merges_witness:
  "fst (Record_save fake_service 0 renamed_world) = Inr ()
   \<and> trace (snd (Record_save fake_service 0 renamed_world))
       = [UpdateDnsRecord (VStr ''z1'') (VStr ''r1'') [(''name'', VStr ''mail'')]]
   \<and> r_data (record_objs (snd (Record_save fake_service 0 renamed_world)) 0) ''name''
       = Some (VStr ''mail'')
   \<and> r_data (record_objs (snd (Record_save fake_service 0 renamed_world)) 0) ''content''
       = Some (VStr ''1.2.3.4'')
   \<and> r_updates (record_objs (snd (Record_save fake_service 0 renamed_world)) 0) = []"
proof -
  have h1: "r_updates (record_objs renamed_world 0) \<noteq> []"
    and h2: "z_data (zone_objs renamed_world (r_zone (record_objs renamed_world 0))) ''id''
               = Some (VStr ''z1'')"
    and h3: "Record_getattr (record_objs renamed_world 0) ''id'' = Inr (VStr ''r1'')"
    and h4: "update_dns_record fake_service (VStr ''z1'') (VStr ''r1'')
               (r_updates (record_objs renamed_world 0)) (remote renamed_world)
             = (Inr [''name'' \<mapsto> VStr ''mail''], remote renamed_world)"
    by (simp_all add: renamed_world_eq sample_world_def sample_record_def Record_getattr_def
        fake_service_def)
  have d: "r_data (record_objs renamed_world 0) = sample_record"
    and u: "r_updates (record_objs renamed_world 0) = [(''name'', VStr ''mail'')]"
    and t: "trace renamed_world = []"
    by (simp_all add: renamed_world_eq sample_world_def)
  from record_save_merges [OF h1 h2 h3 h4] show ?thesis
    by (simp add: d u t split: prod.splits) (simp add: sample_record_def)
qed

section \<open>What a paginated listing sends\<close>

lemma for_each_trace:
  assumes "\<And>x c w. trace (snd (body x c w)) = trace w"
  shows "trace (snd (for_each body xs c w)) = trace w"
proof (induction xs arbitrary: c w)
  case Nil
  show ?case by simp
next
  case (Cons x xs)
  have "trace (snd (body x c w)) = trace w" by (rule assms)
  with Cons.IH show ?case
    by (cases "body x c w") (auto split: sum.splits)
qed

lemma page_iterator_trace:
  assumes "\<And>x c w. trace (snd (body x c w)) = trace w"
  shows "\<exists>n. trace (snd (CloudFlarePageIterator rq body ps c w)) = trace w @ replicate (Suc n) rq"
proof (induction ps arbitrary: c w)
  case (LastPage xs)
  have "trace (snd (for_each body xs c (send rq w))) = trace w @ [rq]"
    using for_each_trace [of body xs c "send rq w"] assms by (simp add: send_def)
  then show ?case by (intro exI [of _ 0]) simp
next
  case (Page xs ps)
  have t: "trace (snd (for_each body xs c (send rq w))) = trace w @ [rq]"
    using for_each_trace [of body xs c "send rq w"] assms by (simp add: send_def)
  show ?case
  proof (cases "for_each body xs c (send rq w)")
    case (Pair res w')
    show ?thesis
    proof (cases res)
      case (Inl e)
      with Pair t show ?thesis by (intro exI [of _ 0]) simp
    next
      case (Inr c')
      from Page.IH [of c' w'] obtain n where
        "trace (snd (CloudFlarePageIterator rq body ps c' w')) = trace w' @ replicate (Suc n) rq"
        by blast
      with Pair Inr t show ?thesis
        by (intro exI [of _ "Suc n"]) (simp add: replicate_app_Cons_same)
    qed
  qed
next
  case (PageFailure e)
  show ?case by (intro exI [of _ 0]) (simp add: send_def)
qed

lemma file_record_trace [simp]: "trace (snd (file_record z data d w)) = trace w"
  by (simp add: file_record_def Record_init_def split: sum.splits)

lemma build_records_trace:
  assumes "z_data (zone_objs w z) ''id'' = Some zid"
  shows "\<exists>n. trace (snd (build_records svc z w)) = trace w @ replicate (Suc n) (GetDnsRecords zid)"
proof -
  let ?it = "CloudFlarePageIterator (GetDnsRecords zid) (file_record z)
      (get_dns_records svc zid (remote w)) [] w"
  obtain n where n: "trace (snd ?it) = trace w @ replicate (Suc n) (GetDnsRecords zid)"
    using page_iterator_trace [of "file_record z"] file_record_trace by blast
  obtain res w' where it: "?it = (res, w')" by (cases ?it)
  have "trace (snd (build_records svc z w)) = trace w'"
    using assms it by (cases res) (simp_all add: build_records_def Zone_getattr_def split: sum.splits)
  with n it show ?thesis by (intro exI [of _ n]) simp
qed

lemma Zone_records_rebuilds:
  assumes "z_records (zone_objs w z) = None" and "z_data (zone_objs w z) ''id'' = Some zid"
  shows "fst (Zone_records svc z w) = fst (build_records svc z w)
       \<and> (\<exists>n. trace (snd (Zone_records svc z w)) = trace w @ replicate (Suc n) (GetDnsRecords zid))"
proof -
  from build_records_trace [OF assms(2)] obtain n where
    n: "trace (snd (build_records svc z w)) = trace w @ replicate (Suc n) (GetDnsRecords zid)"
    by blast
  obtain res w' where b: "build_records svc z w = (res, w')" by (cases "build_records svc z w")
  have "fst (Zone_records svc z w) = res" "trace (snd (Zone_records svc z w)) = trace w'"
    using assms(1) b by (cases res; simp add: Zone_records_def)+
  with n b show ?thesis by auto
qed

lemma iter_zones_trace:
  "\<exists>n. trace (snd (iter_zones svc u w)) = trace w @ replicate (Suc n) GetZones"
  unfolding iter_zones_def
  by (rule page_iterator_trace) (simp add: Zone_init_def)

lemma User_zones_refetches:
  assumes "u_zones (user_objs w u) = None"
  shows "fst (User_zones svc u w) = fst (iter_zones svc u w)
       \<and> (\<exists>n. trace (snd (User_zones svc u w)) = trace w @ replicate (Suc n) GetZones)"
proof -
  from iter_zones_trace obtain n where
    n: "trace (snd (iter_zones svc u w)) = trace w @ replicate (Suc n) GetZones"
    by blast
  obtain res w' where b: "iter_zones svc u w = (res, w')" by (cases "iter_zones svc u w")
  have "fst (User_zones svc u w) = res" "trace (snd (User_zones svc u w)) = trace w'"
    using assms b by (cases res; simp add: User_zones_def)+
  with n b show ?thesis by auto
qed

section \<open>Deleting a zone\<close>

text \<open>
  Claim C9. \<^verbatim>\<open>Zone.delete\<close>, on a zone whose snapshot has an \<^verbatim>\<open>id\<close> and whose deletion
  the provider accepts, sends one request, to the zone-delete endpoint with that id, and
  empties the cache of the zone list of the owning user, so that the next access to
  \<^verbatim>\<open>zones\<close> is the result of \<^verbatim>\<open>iter_zones\<close> and starts by requesting a page of the zone
  listing. No zone object changes, the deleted one included.
\<close>

theorem zone_delete_invalidates_zones:
  assumes "z_data (zone_objs w z) ''id'' = Some zid"
    and "delete_zone svc zid (remote w) = (Inr (), s')"
  shows "case Zone_delete svc z w of
           (res, w') \<Rightarrow>
             res = Inr ()
             \<and> trace w' = trace w @ [DeleteZone zid]
             \<and> remote w' = s'
             \<and> u_zones (user_objs w' (z_user (zone_objs w z))) = None
             \<and> zone_objs w' = zone_objs w
             \<and> fst (User_zones svc (z_user (zone_objs w z)) w')
                 = fst (iter_zones svc (z_user (zone_objs w z)) w')
             \<and> (\<exists>n. trace (snd (User_zones svc (z_user (zone_objs w z)) w'))
                       = trace w' @ replicate (Suc n) GetZones)"
proof -
  let ?u = "z_user (zone_objs w z)"
  let ?w' = "clear_zones ?u (w\<lparr>trace := trace w @ [DeleteZone zid], remote := s'\<rparr>)"
  have del: "Zone_delete svc z w = (Inr (), ?w')"
    using assms by (simp add: Zone_delete_def Zone_getattr_def call_eq Let_def)
  have cache: "u_zones (user_objs ?w' ?u) = None"
    by (simp add: clear_zones_def)
  have rest: "trace ?w' = trace w @ [DeleteZone zid]" "remote ?w' = s'"
    "zone_objs ?w' = zone_objs w"
    by (simp_all add: clear_zones_def)
  note next_access = User_zones_refetches [OF cache, of svc]
  show ?thesis
    unfolding del prod.case
    by (intro conjI refl cache rest next_access [THEN conjunct1] next_access [THEN conjunct2])
qed

theorem zone_delete_invalidates_zones_witness:
  "u_zones (user_objs sample_world 0) = Some [0]
   \<and> fst (Zone_delete fake_service 0 sample_world) = Inr ()
   \<and> trace (snd (Zone_delete fake_service 0 sample_world)) = [DeleteZone (VStr ''z1'')]
   \<and> u_zones (user_objs (snd (Zone_delete fake_service 0 sample_world)) 0) = None"
proof -
  have h1: "z_data (zone_objs sample_world 0) ''id'' = Some (VStr ''z1'')"
    and h2: "delete_zone fake_service (VStr ''z1'') (remote sample_world)
               = (Inr (), remote sample_world)"
    and u: "z_user (zone_objs sample_world 0) = 0" and t: "trace sample_world = []"
    and c: "u_zones (user_objs sample_world 0) = Some [0]"
    by (simp_all add: sample_world_def fake_service_def)
  from zone_delete_invalidates_zones [OF h1 h2] show ?thesis
    by (simp add: u t c split: prod.splits)
qed

section \<open>The requests of Record.save and Record.delete\<close>

lemma Record_save_trace:
  assumes "r_updates (record_objs w r) \<noteq> []"
    and "z_data (zone_objs w (r_zone (record_objs w r))) ''id'' = Some zid"
    and "Record_getattr (record_objs w r) ''id'' = Inr rid"
  shows "trace (snd (Record_save svc r w))
           = trace w @ [UpdateDnsRecord zid rid (r_updates (record_objs w r))]"
proof -
  let ?rq = "UpdateDnsRecord zid rid (r_updates (record_objs w r))"
  let ?f = "update_dns_record svc zid rid (r_updates (record_objs w r))"
  obtain res w1 where c: "call ?rq ?f w = (res, w1)" by (cases "call ?rq ?f w")
  have t: "trace w1 = trace w @ [?rq]" using trace_call [of ?rq ?f w] c by simp
  show ?thesis
  proof (cases res)
    case (Inl e)
    with assms c t show ?thesis
      by (simp add: Record_save_def Zone_getattr_def Let_def)
  next
    case (Inr result)
    with assms c t show ?thesis
      by (simp add: Record_save_def Zone_getattr_def Let_def clear_records_def)
  qed
qed

lemma Record_delete_trace:
  assumes "z_data (zone_objs w (r_zone (record_objs w r))) ''id'' = Some zid"
    and "Record_getattr (record_objs w r) ''id'' = Inr rid"
  shows "trace (snd (Record_delete svc r w)) = trace w @ [DeleteDnsRecord zid rid]"
proof -
  let ?rq = "DeleteDnsRecord zid rid"
  let ?f = "delete_dns_record svc zid rid"
  obtain res w1 where c: "call ?rq ?f w = (res, w1)" by (cases "call ?rq ?f w")
  have t: "trace w1 = trace w @ [?rq]" using trace_call [of ?rq ?f w] c by simp
  show ?thesis
  proof (cases res)
    case (Inl e)
    with assms c t show ?thesis
      by (simp add: Record_delete_def Zone_getattr_def Let_def)
  next
    case (Inr u)
    with assms c t show ?thesis
      by (simp add: Record_delete_def Zone_getattr_def Let_def clear_records_def)
  qed
qed

text \<open>
  Claim C10. On a record whose snapshot has an \<^verbatim>\<open>id\<close>, \<^verbatim>\<open>record.id = new\<close> is staged,
  and from then on \<^verbatim>\<open>self.id\<close> resolves to the staged value: the update request of
  \<^verbatim>\<open>save\<close> and the delete request of \<^verbatim>\<open>delete\<close> carry \<open>new\<close> as the record id,
  whereas \<^verbatim>\<open>delete\<close> before the edit carries the id of the snapshot.
\<close>

theorem staged_id_redirects:
  assumes "r_data (record_objs w r) ''id'' = Some old"
    and "z_data (zone_objs w (r_zone (record_objs w r))) ''id'' = Some zid"
  shows "case Record_setattr r ''id'' new w of
           (res, w1) \<Rightarrow>
             res = Inr Staged
             \<and> Record_getattr (record_objs w1 r) ''id'' = Inr new
             \<and> trace (snd (Record_save svc r w1))
                 = trace w1 @ [UpdateDnsRecord zid new (r_updates (record_objs w1 r))]
             \<and> trace (snd (Record_delete svc r w1)) = trace w1 @ [DeleteDnsRecord zid new]
             \<and> (map_of (r_updates (record_objs w r)) ''id'' = None \<longrightarrow>
                  trace (snd (Record_delete svc r w)) = trace w @ [DeleteDnsRecord zid old])"
proof -
  let ?self = "record_objs w r"
  let ?w1 = "w\<lparr>record_objs := (record_objs w)
                  (r := ?self\<lparr>r_updates := AList.update ''id'' new (r_updates ?self)\<rparr>)\<rparr>"
  have st: "Record_setattr r ''id'' new w = (Inr Staged, ?w1)"
    using assms(1) by (auto simp: Record_setattr_def Let_def)
  have get: "Record_getattr (record_objs ?w1 r) ''id'' = Inr new"
    by (simp add: Record_getattr_def update_conv')
  have zone: "z_data (zone_objs ?w1 (r_zone (record_objs ?w1 r))) ''id'' = Some zid"
    using assms(2) by simp
  have ne: "r_updates (record_objs ?w1 r) \<noteq> []" by simp
  note save = Record_save_trace [OF ne zone get, of svc]
  note del = Record_delete_trace [OF zone get, of svc]
  have old: "map_of (r_updates (record_objs w r)) ''id'' = None \<longrightarrow>
      trace (snd (Record_delete svc r w)) = trace w @ [DeleteDnsRecord zid old]"
  proof
    assume "map_of (r_updates (record_objs w r)) ''id'' = None"
    with assms(1) have "Record_getattr (record_objs w r) ''id'' = Inr old"
      by (simp add: Record_getattr_def)
    with assms(2) show "trace (snd (Record_delete svc r w)) = trace w @ [DeleteDnsRecord zid old]"
      by (rule Record_delete_trace)
  qed
  show ?thesis
    unfolding st prod.case
    by (intro conjI refl get save del old)
qed

theorem staged_id_redirects_witness:
  "trace (snd (Record_delete fake_service 0 sample_world))
     = [DeleteDnsRecord (VStr ''z1'') (VStr ''r1'')]
   \<and> trace (snd (Record_delete fake_service 0
               (snd (Record_setattr 0 ''id'' (VStr ''r2'') sample_world))))
     = [DeleteDnsRecord (VStr ''z1'') (VStr ''r2'')]
   \<and> trace (snd (Record_save fake_service 0
               (snd (Record_setattr 0 ''id'' (VStr ''r2'') sample_world))))
     = [UpdateDnsRecord (VStr ''z1'') (VStr ''r2'') [(''id'', VStr ''r2'')]]"
proof -
  have h1: "r_data (record_objs sample_world 0) ''id'' = Some (VStr ''r1'')"
    and h2: "z_data (zone_objs sample_world (r_zone (record_objs sample_world 0))) ''id''
               = Some (VStr ''z1'')"
    and u: "map_of (r_updates (record_objs sample_world 0)) ''id'' = None"
    and t: "trace sample_world = []"
    by (simp_all add: sample_world_def sample_record_def)
  have s: "r_updates (record_objs (snd (Record_setattr 0 ''id'' (VStr ''r2'') sample_world)) 0)
             = [(''id'', VStr ''r2'')]"
    and t': "trace (snd (Record_setattr 0 ''id'' (VStr ''r2'') sample_world)) = []"
    by (simp_all add: Record_setattr_def sample_world_def sample_record_def Let_def)
  obtain res w1 where eq: "Record_setattr 0 ''id'' (VStr ''r2'') sample_world = (res, w1)"
    by (cases "Record_setattr 0 ''id'' (VStr ''r2'') sample_world")
  from s t' eq have w1: "r_updates (record_objs w1 0) = [(''id'', VStr ''r2'')]" "trace w1 = []"
    by simp_all
  from staged_id_redirects [OF h1 h2, of "VStr ''r2''" fake_service] show ?thesis
    by (simp add: eq u t w1)
qed

section \<open>Invalidation of the record index\<close>

text \<open>
  Claim C1. Each of \<^verbatim>\<open>Zone.create_record\<close> on a zone, \<^verbatim>\<open>Record.save\<close> on one of its
  records with a pending edit of \<^verbatim>\<open>name\<close>, and \<^verbatim>\<open>Record.delete\<close> on one of its records,
  when the ids it needs resolve and the provider accepts the call, returns with the
  zone's cache of \<^verbatim>\<open>records\<close> empty, whether or not the index had been built; the
  next access to \<^verbatim>\<open>records\<close> is then the result of building the index and starts by
  requesting a page of the record listing of the zone.
\<close>

theorem records_index_invalidated:
  "(z_data (zone_objs w z) ''id'' = Some zid
      \<and> create_dns_record svc zid (create_record_data name type content ttl proxied priority)
            (remote w) = (Inr record, s')
    \<longrightarrow> (case Zone_create_record svc z name type content ttl proxied priority w of
           (res, w') \<Rightarrow>
             res = Inr (fresh w)
             \<and> z_records (zone_objs w' z) = None
             \<and> fst (Zone_records svc z w') = fst (build_records svc z w')
             \<and> (\<exists>n. trace (snd (Zone_records svc z w'))
                       = trace w' @ replicate (Suc n) (GetDnsRecords zid))))
   \<and> (r_zone (record_objs w r) = z
      \<and> ''name'' \<in> fst ` set (r_updates (record_objs w r))
      \<and> z_data (zone_objs w z) ''id'' = Some zid
      \<and> Record_getattr (record_objs w r) ''id'' = Inr rid
      \<and> update_dns_record svc zid rid (r_updates (record_objs w r)) (remote w)
            = (Inr result, s')
    \<longrightarrow> (case Record_save svc r w of
           (res, w') \<Rightarrow>
             res = Inr ()
             \<and> z_records (zone_objs w' z) = None
             \<and> fst (Zone_records svc z w') = fst (build_records svc z w')
             \<and> (\<exists>n. trace (snd (Zone_records svc z w'))
                       = trace w' @ replicate (Suc n) (GetDnsRecords zid))))
   \<and> (r_zone (record_objs w r) = z
      \<and> z_data (zone_objs w z) ''id'' = Some zid
      \<and> Record_getattr (record_objs w r) ''id'' = Inr rid
      \<and> delete_dns_record svc zid rid (remote w) = (Inr (), s')
    \<longrightarrow> (case Record_delete svc r w of
           (res, w') \<Rightarrow>
             res = Inr ()
             \<and> z_records (zone_objs w' z) = None
             \<and> fst (Zone_records svc z w') = fst (build_records svc z w')
             \<and> (\<exists>n. trace (snd (Zone_records svc z w'))
                       = trace w' @ replicate (Suc n) (GetDnsRecords zid))))"
proof (intro conjI impI; elim conjE)
  let ?data = "create_record_data name type content ttl proxied priority"
  assume id: "z_data (zone_objs w z) ''id'' = Some zid"
    and ok: "create_dns_record svc zid ?data (remote w) = (Inr record, s')"
  let ?w1 = "clear_records z (w\<lparr>trace := trace w @ [CreateDnsRecord zid ?data], remote := s'\<rparr>)"
  let ?w' = "?w1\<lparr>record_objs := (record_objs ?w1)
                    (fresh ?w1 := \<lparr>r_zone = z, r_data = record, r_updates = []\<rparr>),
                 fresh := Suc (fresh ?w1)\<rparr>"
  have eq: "Zone_create_record svc z name type content ttl proxied priority w
              = (Inr (fresh w), ?w')"
    using id ok
    by (simp add: Zone_create_record_def Zone_getattr_def call_eq Record_init_def Let_def
        clear_records_def)
  have c: "z_records (zone_objs ?w' z) = None" by (simp add: clear_records_def)
  have i: "z_data (zone_objs ?w' z) ''id'' = Some zid" using id by (simp add: clear_records_def)
  note nxt = Zone_records_rebuilds [OF c i, of svc]
  show "case Zone_create_record svc z name type content ttl proxied priority w of
           (res, w') \<Rightarrow>
             res = Inr (fresh w)
             \<and> z_records (zone_objs w' z) = None
             \<and> fst (Zone_records svc z w') = fst (build_records svc z w')
             \<and> (\<exists>n. trace (snd (Zone_records svc z w'))
                       = trace w' @ replicate (Suc n) (GetDnsRecords zid))"
    unfolding eq prod.case
    by (intro conjI refl c nxt [THEN conjunct1] nxt [THEN conjunct2])
next
  assume rz: "r_zone (record_objs w r) = z"
    and nm: "''name'' \<in> fst ` set (r_updates (record_objs w r))"
    and id: "z_data (zone_objs w z) ''id'' = Some zid"
    and rid: "Record_getattr (record_objs w r) ''id'' = Inr rid"
    and ok: "update_dns_record svc zid rid (r_updates (record_objs w r)) (remote w)
               = (Inr result, s')"
  let ?self = "record_objs w r"
  let ?w1 = "w\<lparr>trace := trace w @ [UpdateDnsRecord zid rid (r_updates ?self)], remote := s'\<rparr>"
  let ?w2 = "?w1\<lparr>record_objs := (record_objs ?w1)
                    (r := ?self\<lparr>r_data := r_data ?self ++ result\<rparr>)\<rparr>"
  let ?w3 = "clear_records z ?w2"
  let ?w' = "?w3\<lparr>record_objs := (record_objs ?w3)(r := (record_objs ?w3 r)\<lparr>r_updates := []\<rparr>)\<rparr>"
  from nm have ne: "r_updates ?self \<noteq> []" by auto
  have eq: "Record_save svc r w = (Inr (), ?w')"
    using rz nm ne id rid ok
    by (simp add: Record_save_def Zone_getattr_def call_eq Let_def)
  have c: "z_records (zone_objs ?w' z) = None" by (simp add: clear_records_def)
  have i: "z_data (zone_objs ?w' z) ''id'' = Some zid" using id by (simp add: clear_records_def)
  note nxt = Zone_records_rebuilds [OF c i, of svc]
  show "case Record_save svc r w of
           (res, w') \<Rightarrow>
             res = Inr ()
             \<and> z_records (zone_objs w' z) = None
             \<and> fst (Zone_records svc z w') = fst (build_records svc z w')
             \<and> (\<exists>n. trace (snd (Zone_records svc z w'))
                       = trace w' @ replicate (Suc n) (GetDnsRecords zid))"
    unfolding eq prod.case
    by (intro conjI refl c nxt [THEN conjunct1] nxt [THEN conjunct2])
next
  assume rz: "r_zone (record_objs w r) = z"
    and id: "z_data (zone_objs w z) ''id'' = Some zid"
    and rid: "Record_getattr (record_objs w r) ''id'' = Inr rid"
    and ok: "delete_dns_record svc zid rid (remote w) = (Inr (), s')"
  let ?w' = "clear_records z (w\<lparr>trace := trace w @ [DeleteDnsRecord zid rid], remote := s'\<rparr>)"
  have eq: "Record_delete svc r w = (Inr (), ?w')"
    using rz id rid ok
    by (simp add: Record_delete_def Zone_getattr_def call_eq Let_def)
  have c: "z_records (zone_objs ?w' z) = None" by (simp add: clear_records_def)
  have i: "z_data (zone_objs ?w' z) ''id'' = Some zid" using id by (simp add: clear_records_def)
  note nxt = Zone_records_rebuilds [OF c i, of svc]
  show "case Record_delete svc r w of
           (res, w') \<Rightarrow>
             res = Inr ()
             \<and> z_records (zone_objs w' z) = None
             \<and> fst (Zone_records svc z w') = fst (build_records svc z w')
             \<and> (\<exists>n. trace (snd (Zone_records svc z w'))
                       = trace w' @ replicate (Suc n) (GetDnsRecords zid))"
    unfolding eq prod.case
    by (intro conjI refl c nxt [THEN conjunct1] nxt [THEN conjunct2])
qed

theorem records_index_invalidated_witness:
  "z_records (zone_objs sample_world 0) = Some [(VStr ''www'', [0])]
   \<and> z_records (zone_objs (snd (Zone_create_record fake_service 0 (VStr ''mx'') (VStr ''MX'')
                  (VStr ''mail.example.com'') (VInt 1) (VBool False) (VInt 10) sample_world)) 0)
       = None
   \<and> z_records (zone_objs (snd (Record_save fake_service 0 renamed_world)) 0) = None
   \<and> z_records (zone_objs (snd (Record_delete fake_service 0 sample_world)) 0) = None"
proof -
  let ?D = "create_record_data (VStr ''mx'') (VStr ''MX'') (VStr ''mail.example.com'')
              (VInt 1) (VBool False) (VInt 10)"
  have built: "z_records (zone_objs sample_world 0) = Some [(VStr ''www'', [0])]"
    and id: "z_data (zone_objs sample_world 0) ''id'' = Some (VStr ''z1'')"
    and rz: "r_zone (record_objs sample_world 0) = 0"
    and rid: "Record_getattr (record_objs sample_world 0) ''id'' = Inr (VStr ''r1'')"
    by (simp_all add: sample_world_def sample_record_def Record_getattr_def)
  have created: "create_dns_record fake_service (VStr ''z1'') ?D (remote sample_world)
      = (Inr ((map_of ?D)(''id'' \<mapsto> VStr ''r9'')),
         remote sample_world @ [(map_of ?D)(''id'' \<mapsto> VStr ''r9'')])"
    and deleted: "delete_dns_record fake_service (VStr ''z1'') (VStr ''r1'') (remote sample_world)
      = (Inr (), remote sample_world)"
    by (simp_all add: fake_service_def)
  have id': "z_data (zone_objs renamed_world 0) ''id'' = Some (VStr ''z1'')"
    and rz': "r_zone (record_objs renamed_world 0) = 0"
    and nm: "''name'' \<in> fst ` set (r_updates (record_objs renamed_world 0))"
    and rid': "Record_getattr (record_objs renamed_world 0) ''id'' = Inr (VStr ''r1'')"
    and updated: "update_dns_record fake_service (VStr ''z1'') (VStr ''r1'')
        (r_updates (record_objs renamed_world 0)) (remote renamed_world)
      = (Inr [''name'' \<mapsto> VStr ''mail''], remote renamed_world)"
    by (simp_all add: renamed_world_eq sample_world_def sample_record_def Record_getattr_def
        fake_service_def)
  note create = records_index_invalidated [THEN conjunct1, rule_format, OF conjI, OF id created]
  note save = records_index_invalidated [THEN conjunct2, THEN conjunct1, rule_format,
      OF conjI [OF rz' conjI [OF nm conjI [OF id' conjI [OF rid' updated]]]]]
  note delete = records_index_invalidated [THEN conjunct2, THEN conjunct2, rule_format,
      OF conjI [OF rz conjI [OF id conjI [OF rid deleted]]]]
  from create save delete built show ?thesis
    by (simp split: prod.splits)
qed

section \<open>The order of the sort keys\<close>

lemma py_lt_cong: "py_eq a b \<Longrightarrow> py_lt a c = py_lt b c \<and> py_lt c a = py_lt c b"
  by (cases a; cases b; cases c) (auto simp: py_eq_def split: if_splits)

lemma py_lt_asym: "py_lt a b = Inr True \<Longrightarrow> py_lt b a = Inr False \<and> \<not> py_eq a b"
  by (cases a; cases b) (auto simp: py_eq_def split: if_splits)

lemma py_lt_step:
  "py_lt a b = Inr True \<Longrightarrow> py_lt c b = Inr False \<or> py_eq c b \<Longrightarrow>
     py_lt c a = Inr False \<and> \<not> py_eq c a"
  by (cases a; cases b; cases c) (auto simp: py_eq_def split: if_splits)

lemma key_lt_asym: "key_lt x y = Inr True \<Longrightarrow> key_lt y x = Inr False"
  by (cases x; cases y) (auto simp: py_eq_sym dest: py_lt_asym split: if_splits)

lemma key_lt_step:
  assumes xy: "key_lt x y = Inr True" and zy: "key_lt z y = Inr False"
  shows "key_lt z x = Inr False"
proof -
  obtain a1 b1 a2 b2 a3 b3 where xyz: "x = (a1, b1)" "y = (a2, b2)" "z = (a3, b3)"
    by (cases x; cases y; cases z) blast
  show ?thesis
  proof (cases "py_eq a1 a2")
    case False
    with xy xyz have lt: "py_lt a1 a2 = Inr True" by simp
    from zy xyz have "py_lt a3 a2 = Inr False \<or> py_eq a3 a2"
      by (auto split: if_splits)
    with lt have "py_lt a3 a1 = Inr False \<and> \<not> py_eq a3 a1" by (rule py_lt_step)
    then show ?thesis using xyz by simp
  next
    case True
    with xy xyz have lt: "py_lt b1 b2 = Inr True" and nb: "\<not> py_eq b1 b2"
      by (auto split: if_splits)
    show ?thesis
    proof (cases "py_eq a3 a2")
      case False
      with zy xyz have "py_lt a3 a2 = Inr False" by simp
      with True False have "py_lt a3 a1 = Inr False \<and> \<not> py_eq a3 a1"
        using py_lt_cong py_eq_trans py_eq_sym by metis
      then show ?thesis using xyz by simp
    next
      case a32: True
      with True have a31: "py_eq a3 a1" using py_eq_trans py_eq_sym by blast
      from zy xyz a32 have "py_lt b3 b2 = Inr False \<or> py_eq b3 b2"
        by (auto split: if_splits)
      with lt have "py_lt b3 b1 = Inr False \<and> \<not> py_eq b3 b1" by (rule py_lt_step)
      then show ?thesis using xyz a31 by simp
    qed
  qed
qed

section \<open>The sort\<close>

lemma insert_by_sorted:
  "insert_by key_lt x ys = Inr zs \<Longrightarrow>
     sorted_wrt (\<lambda>p q. key_lt (fst q) (fst p) = Inr False) ys \<Longrightarrow>
     sorted_wrt (\<lambda>p q. key_lt (fst q) (fst p) = Inr False) zs \<and> set zs = insert x (set ys)"
proof (induction ys arbitrary: zs)
  case Nil
  then show ?case by auto
next
  case (Cons y ys)
  show ?case
  proof (cases "key_lt (fst x) (fst y)")
    case (Inl e)
    with Cons.prems show ?thesis by simp
  next
    case (Inr b)
    show ?thesis
    proof (cases b)
      case True
      with Inr Cons.prems have zs: "zs = x # y # ys" by simp
      from Inr True have xy: "key_lt (fst x) (fst y) = Inr True" by simp
      have "key_lt (fst q) (fst x) = Inr False" if "q \<in> set (y # ys)" for q
      proof (cases "q = y")
        case True
        then show ?thesis using xy key_lt_asym by simp
      next
        case False
        with that Cons.prems(2) have "key_lt (fst q) (fst y) = Inr False" by auto
        with xy show ?thesis by (rule key_lt_step)
      qed
      with zs Cons.prems(2) show ?thesis by auto
    next
      case False
      with Inr Cons.prems(1) obtain zs' where
        ins: "insert_by key_lt x ys = Inr zs'" and zs: "zs = y # zs'"
        by (auto split: sum.splits)
      from Cons.prems(2) have "sorted_wrt (\<lambda>p q. key_lt (fst q) (fst p) = Inr False) ys"
        by simp
      with ins Cons.IH have ih: "sorted_wrt (\<lambda>p q. key_lt (fst q) (fst p) = Inr False) zs'"
        "set zs' = insert x (set ys)" by auto
      with zs Cons.prems(2) Inr False show ?thesis by auto
    qed
  qed
qed

lemma sort_by_sorted:
  "sort_by key_lt xs acc = Inr ys \<Longrightarrow>
     sorted_wrt (\<lambda>p q. key_lt (fst q) (fst p) = Inr False) acc \<Longrightarrow>
     sorted_wrt (\<lambda>p q. key_lt (fst q) (fst p) = Inr False) ys \<and> set ys = set xs \<union> set acc"
proof (induction xs arbitrary: acc)
  case Nil
  then show ?case by simp
next
  case (Cons x xs)
  from Cons.prems(1) obtain acc' where
    ins: "insert_by key_lt x acc = Inr acc'" and rest: "sort_by key_lt xs acc' = Inr ys"
    by (auto split: sum.splits)
  from insert_by_sorted [OF ins Cons.prems(2)] have
    s: "sorted_wrt (\<lambda>p q. key_lt (fst q) (fst p) = Inr False) acc'"
    and e: "set acc' = insert x (set acc)" by auto
  from Cons.IH [OF rest s] e show ?case by auto
qed

lemma with_keys_result:
  "with_keys f xs = Inr kxs \<Longrightarrow> map snd kxs = xs \<and> (\<forall>p \<in> set kxs. f (snd p) = Inr (fst p))"
proof (induction xs arbitrary: kxs)
  case Nil
  then show ?case by simp
next
  case (Cons x xs)
  from Cons.prems obtain k ks where
    k: "f x = Inr k" and ks: "with_keys f xs = Inr ks" and kxs: "kxs = (k, x) # ks"
    by (auto split: sum.splits)
  from Cons.IH [OF ks] k kxs show ?case by auto
qed

lemma list_sort_result:
  assumes "list_sort f xs = Inr ys"
  shows "set ys = set xs"
    and "sorted_wrt (\<lambda>a b. \<exists>ka kb. f a = Inr ka \<and> f b = Inr kb \<and> key_lt kb ka = Inr False) ys"
proof -
  from assms obtain kxs zs where
    kxs: "with_keys f xs = Inr kxs" and zs: "sort_by key_lt kxs [] = Inr zs"
    and ys: "ys = map snd zs"
    by (auto simp: list_sort_def split: sum.splits)
  from with_keys_result [OF kxs] have
    m: "map snd kxs = xs" and keys: "\<forall>p \<in> set kxs. f (snd p) = Inr (fst p)" by auto
  from sort_by_sorted [OF zs] have
    s: "sorted_wrt (\<lambda>p q. key_lt (fst q) (fst p) = Inr False) zs" and e: "set zs = set kxs"
    by auto
  from e m ys show "set ys = set xs"
    by (metis set_map)
  have "sorted_wrt (\<lambda>p q. \<exists>ka kb. f (snd p) = Inr ka \<and> f (snd q) = Inr kb
                             \<and> key_lt kb ka = Inr False) zs"
    using s by (rule sorted_wrt_mono_rel [rotated]) (use keys e in auto)
  then show "sorted_wrt (\<lambda>a b. \<exists>ka kb. f a = Inr ka \<and> f b = Inr kb \<and> key_lt kb ka = Inr False) ys"
    by (simp add: ys sorted_wrt_map)
qed

lemma sort_values_result:
  "sort_values f d = Inr d' \<Longrightarrow>
     list_all2 (\<lambda>p q. fst q = fst p \<and> set (snd q) = set (snd p)
        \<and> sorted_wrt (\<lambda>a b. \<exists>ka kb. f a = Inr ka \<and> f b = Inr kb \<and> key_lt kb ka = Inr False)
             (snd q)) d d'"
proof (induction d arbitrary: d')
  case Nil
  then show ?case by simp
next
  case (Cons p d)
  obtain k v where p: "p = (k, v)" by (cases p)
  from Cons.prems p obtain v' d'' where
    v': "list_sort f v = Inr v'" and d'': "sort_values f d = Inr d''" and d': "d' = (k, v') # d''"
    by (auto split: sum.splits)
  from list_sort_result [OF v'] Cons.IH [OF d''] p d' show ?case by simp
qed

section \<open>The dictionary of the index\<close>

lemma dict_get_cong: "py_eq k k' \<Longrightarrow> dict_get d k = dict_get d k'"
proof (induction d)
  case Nil
  show ?case by simp
next
  case (Cons p d)
  obtain k0 v where p: "p = (k0, v)" by (cases p)
  from Cons.prems have "py_eq k0 k = py_eq k0 k'"
    using py_eq_trans py_eq_sym by blast
  with Cons p show ?case by simp
qed

lemma dict_get_setdefault_append:
  "dict_get (setdefault_append d k x) k' =
     (if py_eq k k' then Some ((case dict_get d k of None \<Rightarrow> [] | Some xs \<Rightarrow> xs) @ [x])
      else dict_get d k')"
proof (induction d)
  case Nil
  show ?case by simp
next
  case (Cons p d)
  obtain k0 v where p: "p = (k0, v)" by (cases p)
  show ?case
  proof (cases "py_eq k0 k")
    case True
    then have "py_eq k0 k' = py_eq k k'"
      using py_eq_trans py_eq_sym by blast
    with True p show ?thesis by simp
  next
    case False
    have "py_eq k k' \<Longrightarrow> \<not> py_eq k0 k'"
      using False py_eq_trans py_eq_sym by blast
    with False p Cons.IH show ?thesis by simp
  qed
qed

lemma values_setdefault_append:
  "(\<Union>p \<in> set (setdefault_append d k x). set (snd p)) = insert x (\<Union>p \<in> set d. set (snd p))"
proof (induction d)
  case Nil
  show ?case by simp
next
  case (Cons p d)
  obtain k0 v where p: "p = (k0, v)" by (cases p)
  from Cons.IH p show ?case by (cases "py_eq k0 k") auto
qed

section \<open>The loop that files the records\<close>

lemma file_record_eq:
  "file_record z data d w =
     (case data ''name'' of
        None \<Rightarrow> Inl (AttributeError [])
      | Some name \<Rightarrow> Inr (setdefault_append d name (fresh w)),
      w\<lparr>record_objs := (record_objs w)
           (fresh w := \<lparr>r_zone = z, r_data = data, r_updates = []\<rparr>),
        fresh := Suc (fresh w)\<rparr>)"
  by (simp add: file_record_def Record_init_def Record_getattr_def split: option.splits)

lemma for_each_invariant:
  assumes step: "\<And>x c w c' w'. I c w \<Longrightarrow> body x c w = (Inr c', w') \<Longrightarrow> I c' w'"
  shows "I c w \<Longrightarrow> for_each body xs c w = (Inr c', w') \<Longrightarrow> I c' w'"
proof (induction xs arbitrary: c w)
  case Nil
  then show ?case by simp
next
  case (Cons x xs)
  from Cons.prems(2) obtain c1 w1 where
    b: "body x c w = (Inr c1, w1)" and r: "for_each body xs c1 w1 = (Inr c', w')"
    by (auto split: prod.splits sum.splits)
  from step [OF Cons.prems(1) b] r show ?case by (rule Cons.IH)
qed

lemma page_iterator_invariant:
  assumes step: "\<And>x c w c' w'. I c w \<Longrightarrow> body x c w = (Inr c', w') \<Longrightarrow> I c' w'"
    and sent: "\<And>c w. I c w \<Longrightarrow> I c (send rq w)"
  shows "I c w \<Longrightarrow> CloudFlarePageIterator rq body ps c w = (Inr c', w') \<Longrightarrow> I c' w'"
proof (induction ps arbitrary: c w)
  case (LastPage xs)
  from LastPage.prems(2) have "for_each body xs c (send rq w) = (Inr c', w')" by simp
  with sent [OF LastPage.prems(1)] show ?case
    using for_each_invariant [of I body] step by blast
next
  case (Page xs ps)
  from Page.prems(2) obtain c1 w1 where
    f: "for_each body xs c (send rq w) = (Inr c1, w1)"
    and r: "CloudFlarePageIterator rq body ps c1 w1 = (Inr c', w')"
    by (auto split: prod.splits sum.splits)
  from sent [OF Page.prems(1)] f have "I c1 w1"
    using for_each_invariant [of I body] step by blast
  then show ?case using r by (rule Page.IH)
next
  case (PageFailure e)
  then show ?case by simp
qed

lemma for_each_file_record_items:
  "for_each (file_record z) xs d w = (Inr d', w') \<Longrightarrow>
     fresh w \<le> fresh w' \<and> (\<forall>r < fresh w. record_objs w' r = record_objs w r)
     \<and> map (\<lambda>r. r_data (record_objs w' r)) [fresh w ..< fresh w'] = xs"
proof (induction xs arbitrary: d w)
  case Nil
  then show ?case by simp
next
  case (Cons x xs)
  let ?w1 = "w\<lparr>record_objs := (record_objs w)
                  (fresh w := \<lparr>r_zone = z, r_data = x, r_updates = []\<rparr>),
               fresh := Suc (fresh w)\<rparr>"
  from Cons.prems obtain d1 w1 where b: "file_record z x d w = (Inr d1, w1)"
    and r1: "for_each (file_record z) xs d1 w1 = (Inr d', w')"
    by (auto split: prod.splits sum.splits)
  from b have "w1 = ?w1" unfolding file_record_eq by simp
  with r1 have r: "for_each (file_record z) xs d1 ?w1 = (Inr d', w')" by simp
  from Cons.IH [OF r] have le: "Suc (fresh w) \<le> fresh w'"
    and same: "\<forall>r < Suc (fresh w). record_objs w' r = record_objs ?w1 r"
    and items: "map (\<lambda>r. r_data (record_objs w' r)) [Suc (fresh w) ..< fresh w'] = xs"
    by simp_all
  from le have up: "[fresh w ..< fresh w'] = fresh w # [Suc (fresh w) ..< fresh w']"
    by (simp add: upt_conv_Cons)
  from same have "r_data (record_objs w' (fresh w)) = x" by simp
  with up items le same show ?case by simp
qed

lemma page_iterator_file_record_items:
  "CloudFlarePageIterator rq (file_record z) ps d w = (Inr d', w') \<Longrightarrow>
     fresh w \<le> fresh w' \<and> (\<forall>r < fresh w. record_objs w' r = record_objs w r)
     \<and> map (\<lambda>r. r_data (record_objs w' r)) [fresh w ..< fresh w'] = page_items ps"
proof (induction ps arbitrary: d w)
  case (LastPage xs)
  then have "for_each (file_record z) xs d (send rq w) = (Inr d', w')" by simp
  from for_each_file_record_items [OF this] show ?case by (simp add: send_def)
next
  case (Page xs ps)
  from Page.prems obtain d1 w1 where
    f: "for_each (file_record z) xs d (send rq w) = (Inr d1, w1)"
    and r: "CloudFlarePageIterator rq (file_record z) ps d1 w1 = (Inr d', w')"
    by (auto split: prod.splits sum.splits)
  from for_each_file_record_items [OF f] have
    a: "fresh w \<le> fresh w1" "\<forall>r < fresh w. record_objs w1 r = record_objs w r"
    "map (\<lambda>r. r_data (record_objs w1 r)) [fresh w ..< fresh w1] = xs"
    by (simp_all add: send_def)
  from Page.IH [OF r] have
    b: "fresh w1 \<le> fresh w'" "\<forall>r < fresh w1. record_objs w' r = record_objs w1 r"
    "map (\<lambda>r. r_data (record_objs w' r)) [fresh w1 ..< fresh w'] = page_items ps"
    by simp_all
  from a(1) b(1) have split: "[fresh w ..< fresh w'] = [fresh w ..< fresh w1] @ [fresh w1 ..< fresh w']"
    by (metis le_Suc_ex upt_add_eq_append)
  have "map (\<lambda>r. r_data (record_objs w' r)) [fresh w ..< fresh w1]
          = map (\<lambda>r. r_data (record_objs w1 r)) [fresh w ..< fresh w1]"
    using b(2) by simp
  with a b split show ?case by simp
next
  case (PageFailure e)
  then show ?case by simp
qed

lemma file_record_step:
  assumes b: "file_record z x c v = (Inr c', v')"
    and le: "F \<le> fresh v"
    and filed: "\<forall>r. F \<le> r \<and> r < fresh v \<longrightarrow>
             r_zone (record_objs v r) = z \<and> r_updates (record_objs v r) = []
             \<and> (\<exists>name rs. r_data (record_objs v r) ''name'' = Some name
                   \<and> dict_get c name = Some rs \<and> r \<in> set rs)"
    and vals: "(\<Union>p \<in> set c. set (snd p)) \<subseteq> {F ..< fresh v}"
  shows "F \<le> fresh v'"
    and "zone_objs v' = zone_objs v"
    and "\<forall>r. F \<le> r \<and> r < fresh v' \<longrightarrow>
             r_zone (record_objs v' r) = z \<and> r_updates (record_objs v' r) = []
             \<and> (\<exists>name rs. r_data (record_objs v' r) ''name'' = Some name
                   \<and> dict_get c' name = Some rs \<and> r \<in> set rs)"
    and "(\<Union>p \<in> set c'. set (snd p)) \<subseteq> {F ..< fresh v'}"
proof -
  from b [unfolded file_record_eq] obtain name where name: "x ''name'' = Some name"
    and c': "c' = setdefault_append c name (fresh v)"
    and v': "v' = v\<lparr>record_objs := (record_objs v)
                      (fresh v := \<lparr>r_zone = z, r_data = x, r_updates = []\<rparr>),
                   fresh := Suc (fresh v)\<rparr>"
    by (cases "x ''name''") auto
  have fr: "fresh v' = Suc (fresh v)" and zo: "zone_objs v' = zone_objs v"
    and new: "record_objs v' (fresh v) = \<lparr>r_zone = z, r_data = x, r_updates = []\<rparr>"
    and old: "\<And>r. r \<noteq> fresh v \<Longrightarrow> record_objs v' r = record_objs v r"
    by (simp_all add: v')
  from le fr show "F \<le> fresh v'" by simp
  from zo show "zone_objs v' = zone_objs v" .
  show "\<forall>r. F \<le> r \<and> r < fresh v' \<longrightarrow>
             r_zone (record_objs v' r) = z \<and> r_updates (record_objs v' r) = []
             \<and> (\<exists>name rs. r_data (record_objs v' r) ''name'' = Some name
                   \<and> dict_get c' name = Some rs \<and> r \<in> set rs)"
  proof (intro allI impI, elim conjE)
    fix r
    assume r: "F \<le> r" "r < fresh v'"
    show "r_zone (record_objs v' r) = z \<and> r_updates (record_objs v' r) = []
             \<and> (\<exists>name rs. r_data (record_objs v' r) ''name'' = Some name
                   \<and> dict_get c' name = Some rs \<and> r \<in> set rs)"
    proof (cases "r = fresh v")
      case True
      have "dict_get c' name = Some ((case dict_get c name of None \<Rightarrow> [] | Some xs \<Rightarrow> xs) @ [r])"
        by (simp add: c' True dict_get_setdefault_append)
      moreover have "r \<in> set ((case dict_get c name of None \<Rightarrow> [] | Some xs \<Rightarrow> xs) @ [r])"
        by simp
      ultimately have "\<exists>nm rs. x ''name'' = Some nm \<and> dict_get c' nm = Some rs \<and> r \<in> set rs"
        using name by blast
      then show ?thesis by (simp add: True new)
    next
      case False
      with r fr have lt: "r < fresh v" by simp
      from filed [rule_format, OF conjI [OF r(1) lt]] obtain nm rs where
        o: "r_zone (record_objs v r) = z" "r_updates (record_objs v r) = []"
        "r_data (record_objs v r) ''name'' = Some nm" "dict_get c nm = Some rs" "r \<in> set rs"
        by (elim conjE exE)
      have "\<exists>rs'. dict_get c' nm = Some rs' \<and> r \<in> set rs'"
      proof (cases "py_eq name nm")
        case True
        then have "dict_get c name = dict_get c nm" by (rule dict_get_cong)
        with True o(4,5) show ?thesis by (simp add: c' dict_get_setdefault_append)
      next
        case False
        with o(4,5) show ?thesis by (simp add: c' dict_get_setdefault_append)
      qed
      then obtain rs' where "dict_get c' nm = Some rs'" "r \<in> set rs'" by (elim exE conjE)
      with o(3) have "\<exists>name rs. r_data (record_objs v r) ''name'' = Some name
                   \<and> dict_get c' name = Some rs \<and> r \<in> set rs" by (intro exI conjI)
      with o(1,2) show ?thesis by (simp add: old [OF False])
    qed
  qed
  have "(\<Union>p \<in> set c'. set (snd p)) = insert (fresh v) (\<Union>p \<in> set c. set (snd p))"
    unfolding c' by (rule values_setdefault_append)
  moreover have "insert (fresh v) {F ..< fresh v} \<subseteq> {F ..< fresh v'}"
    using le fr by auto
  ultimately show "(\<Union>p \<in> set c'. set (snd p)) \<subseteq> {F ..< fresh v'}"
    using vals by (metis insert_mono subset_trans)
qed

lemma page_iterator_file_record_index:
  assumes "CloudFlarePageIterator rq (file_record z) ps [] w = (Inr d, w')"
  shows "zone_objs w' = zone_objs w
       \<and> (\<forall>r. fresh w \<le> r \<and> r < fresh w' \<longrightarrow>
             r_zone (record_objs w' r) = z \<and> r_updates (record_objs w' r) = []
             \<and> (\<exists>name rs. r_data (record_objs w' r) ''name'' = Some name
                   \<and> dict_get d name = Some rs \<and> r \<in> set rs))
       \<and> (\<Union>p \<in> set d. set (snd p)) \<subseteq> {fresh w ..< fresh w'}"
proof -
  let ?I = "\<lambda>c v. fresh w \<le> fresh v \<and> zone_objs v = zone_objs w
       \<and> (\<forall>r. fresh w \<le> r \<and> r < fresh v \<longrightarrow>
             r_zone (record_objs v r) = z \<and> r_updates (record_objs v r) = []
             \<and> (\<exists>name rs. r_data (record_objs v r) ''name'' = Some name
                   \<and> dict_get c name = Some rs \<and> r \<in> set rs))
       \<and> (\<Union>p \<in> set c. set (snd p)) \<subseteq> {fresh w ..< fresh v}"
  have step: "?I c' v'" if inv: "?I c v" and b: "file_record z x c v = (Inr c', v')"
    for x c c' and v v' :: "'a world"
  proof -
    note i1 = inv [THEN conjunct1]
    note i2 = inv [THEN conjunct2, THEN conjunct1]
    note i3 = inv [THEN conjunct2, THEN conjunct2, THEN conjunct1]
    note i4 = inv [THEN conjunct2, THEN conjunct2, THEN conjunct2]
    note s = file_record_step [OF b i1 i3 i4]
    from s(2) i2 have z: "zone_objs v' = zone_objs w" by simp
    show ?thesis by (intro conjI s(1) z s(3) s(4))
  qed
  have sent: "?I c (send rq v)" if "?I c v" for c and v :: "'a world"
    using that unfolding send_def by simp
  have init: "?I [] w" by simp
  have "?I d w'"
    by (rule page_iterator_invariant [where I = ?I and body = "file_record z" and rq = rq,
          OF step sent init assms])
  then show ?thesis by (elim conjE) (intro conjI)
qed

lemma sorted_values_get:
  "list_all2 (\<lambda>p q. fst q = fst p \<and> set (snd q) = set (snd p) \<and> S (snd q)) d d' \<Longrightarrow>
     dict_get d k = Some rs \<Longrightarrow> \<exists>rs'. dict_get d' k = Some rs' \<and> set rs' = set rs"
proof (induction d d' rule: list_all2_induct)
  case Nil
  then show ?case by simp
next
  case (Cons p d q d')
  obtain k0 v where p: "p = (k0, v)" by (cases p)
  obtain k1 v' where q: "q = (k1, v')" by (cases q)
  from Cons p q show ?case by (cases "py_eq k0 k") auto
qed

lemma sorted_values_entries:
  "list_all2 (\<lambda>p q. fst q = fst p \<and> set (snd q) = set (snd p) \<and> S (snd q)) d d' \<Longrightarrow>
     q \<in> set d' \<Longrightarrow> S (snd q) \<and> (\<exists>p \<in> set d. set (snd q) = set (snd p))"
  by (induction d d' rule: list_all2_induct) auto

lemma record_key_cong:
  assumes "record_objs w1 = record_objs w2"
  shows "record_key w1 = record_key w2"
  unfolding record_key_def assms ..

lemma build_records_Inr:
  assumes b: "build_records svc z w = (Inr by_name, w0)"
  obtains zid d where "z_data (zone_objs w z) ''id'' = Some zid"
    and "CloudFlarePageIterator (GetDnsRecords zid) (file_record z)
           (get_dns_records svc zid (remote w)) [] w = (Inr d, w0)"
    and "sort_values (record_key w0) d = Inr by_name"
proof (cases "z_data (zone_objs w z) ''id''")
  case None
  with b show ?thesis by (simp add: build_records_def Zone_getattr_def)
next
  case (Some zid)
  let ?it = "CloudFlarePageIterator (GetDnsRecords zid) (file_record z)
               (get_dns_records svc zid (remote w)) [] w"
  obtain r1 w1 where it1: "?it = (r1, w1)" by (cases ?it)
  show ?thesis
  proof (cases r1)
    case (Inl e)
    with b Some it1 show ?thesis by (simp add: build_records_def Zone_getattr_def)
  next
    case (Inr d)
    show ?thesis
    proof (cases "sort_values (record_key w1) d")
      case (Inl e)
      with b Some it1 Inr show ?thesis by (simp add: build_records_def Zone_getattr_def)
    next
      case sv: (Inr s)
      with b Some it1 Inr have "s = by_name" "w1 = w0"
        by (simp_all add: build_records_def Zone_getattr_def)
      with Some it1 Inr sv that show ?thesis by simp
    qed
  qed
qed

lemma Zone_records_Inr:
  assumes c: "z_records (zone_objs w z) = None"
    and r: "Zone_records svc z w = (Inr by_name, w')"
  obtains w0 where "build_records svc z w = (Inr by_name, w0)"
    and "w' = w0\<lparr>zone_objs := (zone_objs w0)
                    (z := (zone_objs w0 z)\<lparr>z_records := Some by_name\<rparr>)\<rparr>"
proof -
  obtain res w0 where b: "build_records svc z w = (res, w0)"
    by (cases "build_records svc z w")
  have u: "Zone_records svc z w =
      (case res of Inl e \<Rightarrow> (Inl e, w0)
       | Inr d \<Rightarrow> (Inr d, w0\<lparr>zone_objs := (zone_objs w0)
                    (z := (zone_objs w0 z)\<lparr>z_records := Some d\<rparr>)\<rparr>))"
    unfolding Zone_records_def c b by simp
  show ?thesis
  proof (cases res)
    case (Inl e)
    with u r show ?thesis by simp
  next
    case (Inr d)
    with u r have "d = by_name" and "w' = w0\<lparr>zone_objs := (zone_objs w0)
                    (z := (zone_objs w0 z)\<lparr>z_records := Some by_name\<rparr>)\<rparr>"
      by simp_all
    with b Inr that show ?thesis by simp
  qed
qed

section \<open>The record index\<close>

text \<open>
  Claim C2. When the property \<^verbatim>\<open>Zone.records\<close> is computed and returns, the
  records it has fetched are the objects created during the call: their snapshots are the
  items of the paginated listing of the zone, in order, and they belong to the zone. The
  result, which is also what the cache now holds, is a dictionary in which every fetched
  record is in the list under its own name, every list holds fetched records only, and
  every list is ascending by \<^verbatim>\<open>(type, content)\<close>: the keys of any two of its records
  compare, and the later one is not less than the earlier one.
\<close>

theorem records_index_built:
  assumes "z_records (zone_objs w z) = None"
    and "Zone_records svc z w = (Inr by_name, w')"
  shows "z_records (zone_objs w' z) = Some by_name
       \<and> (\<exists>zid. z_data (zone_objs w z) ''id'' = Some zid
             \<and> map (\<lambda>r. r_data (record_objs w' r)) [fresh w ..< fresh w']
                 = page_items (get_dns_records svc zid (remote w)))
       \<and> (\<forall>r. fresh w \<le> r \<and> r < fresh w' \<longrightarrow>
             r_zone (record_objs w' r) = z
             \<and> (\<exists>name rs. Record_getattr (record_objs w' r) ''name'' = Inr name
                   \<and> dict_get by_name name = Some rs \<and> r \<in> set rs))
       \<and> (\<forall>p \<in> set by_name.
             set (snd p) \<subseteq> {fresh w ..< fresh w'}
             \<and> sorted_wrt (\<lambda>a b. \<exists>ka kb. record_key w' a = Inr ka \<and> record_key w' b = Inr kb
                                    \<and> key_lt kb ka = Inr False) (snd p))"
proof -
  from assms obtain w0 where b': "build_records svc z w = (Inr by_name, w0)"
    and w': "w' = w0\<lparr>zone_objs := (zone_objs w0)
                       (z := (zone_objs w0 z)\<lparr>z_records := Some by_name\<rparr>)\<rparr>"
    by (rule Zone_records_Inr)
  from b' obtain zid d where zid: "z_data (zone_objs w z) ''id'' = Some zid"
    and it: "CloudFlarePageIterator (GetDnsRecords zid) (file_record z)
               (get_dns_records svc zid (remote w)) [] w = (Inr d, w0)"
    and sv: "sort_values (record_key w0) d = Inr by_name"
    by (rule build_records_Inr)
  have ro: "record_objs w' = record_objs w0" and fr: "fresh w' = fresh w0"
    by (simp_all add: w')
  have sk: "record_key w' = record_key w0" using ro by (rule record_key_cong)
  from page_iterator_file_record_items [OF it] have
    items: "map (\<lambda>r. r_data (record_objs w0 r)) [fresh w ..< fresh w0]
              = page_items (get_dns_records svc zid (remote w))"
    by simp
  note index = page_iterator_file_record_index [OF it]
  note filed = index [THEN conjunct2, THEN conjunct1]
  note vals = index [THEN conjunct2, THEN conjunct2]
  note sorted = sort_values_result [OF sv]
  have c1: "z_records (zone_objs w' z) = Some by_name" by (simp add: w')
  have c2: "\<exists>zid. z_data (zone_objs w z) ''id'' = Some zid
             \<and> map (\<lambda>r. r_data (record_objs w' r)) [fresh w ..< fresh w']
                 = page_items (get_dns_records svc zid (remote w))"
    unfolding ro fr using zid items by (intro exI [of _ zid] conjI)
  have c3: "\<forall>r. fresh w \<le> r \<and> r < fresh w' \<longrightarrow>
             r_zone (record_objs w' r) = z
             \<and> (\<exists>name rs. Record_getattr (record_objs w' r) ''name'' = Inr name
                   \<and> dict_get by_name name = Some rs \<and> r \<in> set rs)"
  proof (intro allI impI, elim conjE)
    fix r
    assume "fresh w \<le> r" "r < fresh w'"
    then have "fresh w \<le> r \<and> r < fresh w0" by (simp add: fr)
    from filed [rule_format, OF this] obtain name rs where
      o: "r_zone (record_objs w0 r) = z" "r_updates (record_objs w0 r) = []"
      "r_data (record_objs w0 r) ''name'' = Some name" "dict_get d name = Some rs" "r \<in> set rs"
      by (elim conjE exE)
    from sorted_values_get [OF sorted o(4)] obtain rs' where
      rs': "dict_get by_name name = Some rs'" "set rs' = set rs" by (elim exE conjE)
    from o(2,3) have "Record_getattr (record_objs w0 r) ''name'' = Inr name"
      by (simp add: Record_getattr_def)
    moreover from o(5) rs'(2) have "r \<in> set rs'" by simp
    ultimately have "\<exists>name rs. Record_getattr (record_objs w0 r) ''name'' = Inr name
                   \<and> dict_get by_name name = Some rs \<and> r \<in> set rs"
      using rs'(1) by (intro exI conjI)
    with o(1) show "r_zone (record_objs w' r) = z
             \<and> (\<exists>name rs. Record_getattr (record_objs w' r) ''name'' = Inr name
                   \<and> dict_get by_name name = Some rs \<and> r \<in> set rs)"
      unfolding ro by (intro conjI)
  qed
  have c4: "\<forall>p \<in> set by_name.
             set (snd p) \<subseteq> {fresh w ..< fresh w'}
             \<and> sorted_wrt (\<lambda>a b. \<exists>ka kb. record_key w' a = Inr ka \<and> record_key w' b = Inr kb
                                    \<and> key_lt kb ka = Inr False) (snd p)"
  proof
    fix q
    assume "q \<in> set by_name"
    from sorted_values_entries [OF sorted this] obtain p where
      s: "sorted_wrt (\<lambda>a b. \<exists>ka kb. record_key w0 a = Inr ka \<and> record_key w0 b = Inr kb
                                    \<and> key_lt kb ka = Inr False) (snd q)"
      and p: "p \<in> set d" "set (snd q) = set (snd p)" by (elim conjE bexE)
    from p(1) have "set (snd p) \<subseteq> (\<Union>p \<in> set d. set (snd p))" by (rule UN_upper)
    with p(2) vals have "set (snd q) \<subseteq> {fresh w ..< fresh w0}" by simp
    with s show "set (snd q) \<subseteq> {fresh w ..< fresh w'}
             \<and> sorted_wrt (\<lambda>a b. \<exists>ka kb. record_key w' a = Inr ka \<and> record_key w' b = Inr kb
                                    \<and> key_lt kb ka = Inr False) (snd q)"
      unfolding sk fr by (intro conjI)
  qed
  show ?thesis by (intro conjI c1 c2 c3 c4)
qed

lemma unbuilt_index:
  "fst (Zone_records fake_service 0 unbuilt_world)
     = Inr [(VStr ''www'', [3, 1]), (VStr ''mail'', [2])]"
  by (simp add: Zone_records_def build_records_def Zone_getattr_def unbuilt_world_def
      clear_records_def sample_world_def sample_record_def fake_service_def send_def
      file_record_def Record_init_def Record_getattr_def record_key_def list_sort_def
      less_char_def split: prod.splits)

theorem records_index_built_witness:
  "z_records (zone_objs unbuilt_world 0) = None
   \<and> fst (Zone_records fake_service 0 unbuilt_world)
       = Inr [(VStr ''www'', [3, 1]), (VStr ''mail'', [2])]
   \<and> z_records (zone_objs (snd (Zone_records fake_service 0 unbuilt_world)) 0)
       = Some [(VStr ''www'', [3, 1]), (VStr ''mail'', [2])]
   \<and> sorted_wrt (\<lambda>a b. \<exists>ka kb.
          record_key (snd (Zone_records fake_service 0 unbuilt_world)) a = Inr ka
          \<and> record_key (snd (Zone_records fake_service 0 unbuilt_world)) b = Inr kb
          \<and> key_lt kb ka = Inr False) [3, 1]"
proof -
  let ?idx = "[(VStr ''www'', [3, 1]), (VStr ''mail'', [2::nat])]"
  have h1: "z_records (zone_objs unbuilt_world 0) = None"
    by (simp add: unbuilt_world_def clear_records_def)
  have h2: "Zone_records fake_service 0 unbuilt_world
              = (Inr ?idx, snd (Zone_records fake_service 0 unbuilt_world))"
    using unbuilt_index by (simp add: prod_eq_iff)
  note built = records_index_built [OF h1 h2]
  have mem: "(VStr ''www'', [3, 1::nat]) \<in> set ?idx" by simp
  note entry = bspec [OF built [THEN conjunct2, THEN conjunct2, THEN conjunct2] mem]
  from entry [THEN conjunct2] have
    "sorted_wrt (\<lambda>a b. \<exists>ka kb.
          record_key (snd (Zone_records fake_service 0 unbuilt_world)) a = Inr ka
          \<and> record_key (snd (Zone_records fake_service 0 unbuilt_world)) b = Inr kb
          \<and> key_lt kb ka = Inr False) [3, 1]"
    by simp
  then show ?thesis
    using h1 unbuilt_index built [THEN conjunct1] by simp
qed

end
